theory Spec2Isabelle
  imports Complex_Main "HOL-Library.Word"
begin

section \<open>JavaScript numbers\<close>

text \<open>
  The program is TypeScript; every \<^verbatim>\<open>number\<close> is an IEEE-754 binary64 double. The model
  uses
  \<^item> \<^typ>\<open>int\<close> for the values that are integers in every state the program builds
    (seed, counters, ids, columns, MIDI pitch and volume),
  \<^item> \<^typ>\<open>rat\<close> for positions, times and intermediate scores: every finite double is a
    rational number,
  \<^item> \<^typ>\<open>32 word\<close>, read as two's complement by \<open>sint\<close>, for \<^verbatim>\<open>points\<close>: the field
    starts at 0 and every write goes through \<^verbatim>\<open>~~\<close>, which is ECMAScript's ToInt32.
  An arithmetic operation of the program gives the double nearest to the exact result.
  The reducer's arithmetic on positions, tails and scores is modelled with that
  rounding, \<open>fl\<close>: \<^verbatim>\<open>a + b\<close> is \<open>fl (a + b)\<close>, the literal \<^verbatim>\<open>0.2\<close> is \<open>fl (1 / 5)\<close>. So is
  the integer arithmetic of \<^verbatim>\<open>RNG.hash\<close>, whose product has up to 61 binary digits, with
  \<open>fl64\<close>. The quotient in \<^verbatim>\<open>RNG.scale\<close> and the difference of two start times in the
  scheduler are exact rationals. Results of magnitude \<open>2^1024\<close> or more (\<^verbatim>\<open>Infinity\<close>) and
  \<^verbatim>\<open>NaN\<close> are outside the model.
\<close>

text \<open>Truncation toward zero, the first step of ToInt32.\<close>

definition trunc_rat :: "rat \<Rightarrow> int" where
  "trunc_rat x = (if 0 \<le> x then \<lfloor>x\<rfloor> else \<lceil>x\<rceil>)"

text \<open>\<^verbatim>\<open>~~x\<close>: truncate, then wrap into the signed 32-bit range.\<close>

definition toInt32 :: "rat \<Rightarrow> 32 word" where
  "toInt32 x = word_of_int (trunc_rat x)"

text \<open>Number of binary digits of a natural number.\<close>

fun bitlen :: "nat \<Rightarrow> nat" where
  "bitlen n = (if n = 0 then 0 else Suc (bitlen (n div 2)))"

declare bitlen.simps [simp del]

text \<open>The multiple of \<open>q\<close> nearest to \<open>n\<close>, a tie going to the even multiple.\<close>

definition roundTiesToEven :: "int \<Rightarrow> int \<Rightarrow> int" where
  "roundTiesToEven n q =
     (let k = n div q; r = n mod q in
      if 2 * r < q then k * q
      else if q < 2 * r then (k + 1) * q
      else if even k then k * q else (k + 1) * q)"

text \<open>
  The double nearest to an integer: a double has a 53-bit significand, so an integer of
  more digits is rounded to a multiple of \<open>2 ^ (digits - 53)\<close>.
\<close>

definition fl64 :: "int \<Rightarrow> int" where
  "fl64 n =
     (let e = bitlen (nat \<bar>n\<bar>) in
      if e \<le> 53 then n else roundTiesToEven n (2 ^ (e - 53)))"

text \<open>\<^verbatim>\<open>a % m\<close> on integer-valued numbers: the remainder has the sign of the dividend.\<close>

definition js_rem :: "int \<Rightarrow> int \<Rightarrow> int" where
  "js_rem a m = (if 0 \<le> a then a mod m else - ((- a) mod m))"

subsection \<open>Rounding to binary64\<close>

text \<open>The binary exponent of a number that is not 0: \<open>2^e \<le> |x| < 2^(e + 1)\<close>.\<close>

definition expo :: "rat \<Rightarrow> int" where
  "expo x =
     (if 1 \<le> \<bar>x\<bar> then int (bitlen (nat \<lfloor>\<bar>x\<bar>\<rfloor>)) - 1
      else - int (bitlen (nat (\<lceil>1 / \<bar>x\<bar>\<rceil> - 1))))"

text \<open>The nearest integer, a tie going to the even one.\<close>

definition roundHalfEven :: "rat \<Rightarrow> int" where
  "roundHalfEven y =
     (let f = \<lfloor>y\<rfloor>; r = y - of_int f in
      if r < 1 / 2 then f
      else if 1 / 2 < r then f + 1
      else if even f then f else f + 1)"

text \<open>
  The double nearest to \<open>x\<close>, round-to-nearest, ties-to-even. A double has 53
  significant binary digits, so near \<open>x\<close> the doubles are the multiples of
  \<open>2^(e - 52)\<close>, and of \<open>2^(-1074)\<close> in the subnormal range.
\<close>

definition fl :: "rat \<Rightarrow> rat" where
  "fl x =
     (if x = 0 then 0
      else let q = 2 powi (max (expo x - 52) (- 1074))
           in q * of_int (roundHalfEven (x / q)))"

section \<open>RNG (util.ts)\<close>

definition RNG_modulus :: int where
  "RNG_modulus = 2147483648"

definition RNG_multiplier :: int where
  "RNG_multiplier = 1103515245"

definition RNG_increment :: int where
  "RNG_increment = 12345"

text \<open>\<^verbatim>\<open>(RNG.multiplier * seed + RNG.increment) % RNG.modulus\<close>\<close>

definition hash :: "int \<Rightarrow> int" where
  "hash seed = js_rem (fl64 (fl64 (RNG_multiplier * seed) + RNG_increment)) RNG_modulus"

text \<open>\<^verbatim>\<open>((2 * hash) / (RNG.modulus - 1) - 1 + 1) / 2\<close>\<close>

definition scale :: "rat \<Rightarrow> rat" where
  "scale h = ((2 * h) / (of_int RNG_modulus - 1) - 1 + 1) / 2"

section \<open>Constants and data (main.ts)\<close>

definition INCREMENT :: rat where
  "INCREMENT = 1"

definition RATE :: rat where
  "RATE = 7"

definition THRESHOLD :: rat where
  "THRESHOLD = 40"

definition LAST_ROW :: rat where
  "LAST_ROW = 350"

record TailInfo =
  start :: rat
  end' :: rat
  inactive :: bool

text \<open>
  \<open>tail = None\<close> is \<^verbatim>\<open>tail: undefined\<close>; \<open>instrument = None\<close> is an instrument that is
  \<^verbatim>\<open>undefined\<close> (an index past the end of the sample list).
\<close>

record MusicalNote =
  id' :: int
  visible :: bool
  yPos :: rat
  column :: int
  instrument :: "string option"
  volume :: int
  pitch :: int
  startTime :: rat
  endTime :: rat
  tail :: "TailInfo option"

record GameState =
  isGameOver :: bool
  allNotesFinished :: bool
  tickCount :: int
  randomSeed :: int
  notesPlayed :: int
  points :: "32 word"
  activeNotes :: "MusicalNote list"
  expiredNotes :: "MusicalNote list"
  readyNotes :: "MusicalNote list"

definition defaultState :: GameState where
  "defaultState =
     \<lparr> isGameOver = False, allNotesFinished = False, tickCount = 0,
       randomSeed = hash 3847589, notesPlayed = 0, points = 0,
       activeNotes = [], expiredNotes = [], readyNotes = [] \<rparr>"

section \<open>advanceTick\<close>

definition adjustTail :: "rat \<Rightarrow> rat \<Rightarrow> TailInfo \<Rightarrow> bool \<Rightarrow> TailInfo" where
  "adjustTail increment bottom t vis =
     \<lparr> start = fl (start t + increment),
       end' = (if vis then fl (end' t + increment) else bottom),
       inactive = (if vis then False else inactive t) \<rparr>"

text \<open>
  The result is the pair \<^verbatim>\<open>[note kept on the board | null, note to sound | null]\<close>.
\<close>

definition updateNoteYPos ::
  "rat \<Rightarrow> rat \<Rightarrow> MusicalNote \<Rightarrow> MusicalNote option \<times> MusicalNote option" where
  "updateNoteYPos increment bottom note =
     (let newY = fl (yPos note + increment) in
      case tail note of
        Some t \<Rightarrow>
          (let updatedTail = adjustTail increment bottom t (visible note);
               updatedNote = note\<lparr>yPos := newY, tail := Some updatedTail\<rparr>
           in if visible note then
                if end' updatedTail = bottom then
                  (if start updatedTail < bottom
                   then (Some (updatedNote\<lparr>visible := False,
                                  tail := Some (updatedTail\<lparr>inactive := True\<rparr>)\<rparr>), None)
                   else (None, None))
                else
                  (if start updatedTail < bottom then (Some updatedNote, None)
                   else (None, None))
              else
                if newY = bottom then (Some updatedNote, Some updatedNote)
                else
                  (if start updatedTail < bottom then (Some updatedNote, None)
                   else (None, None)))
      | None \<Rightarrow>
          if newY \<le> bottom then
            if visible note then
              (if newY < bottom then (Some (note\<lparr>yPos := newY\<rparr>), None)
               else if newY = bottom then (None, None)
               else (None, None))
            else
              (if newY < bottom then (Some (note\<lparr>yPos := newY\<rparr>), None)
               else if newY = bottom then (None, Some (note\<lparr>yPos := newY\<rparr>))
               else (None, None))
          else (None, None))"

definition calcPositionForGame :: "MusicalNote \<Rightarrow> MusicalNote option \<times> MusicalNote option" where
  "calcPositionForGame = updateNoteYPos INCREMENT LAST_ROW"

text \<open>The callback of \<^verbatim>\<open>state.activeNotes.reduce\<close>; the accumulator is the pair
  \<^verbatim>\<open>(newActiveNotes, newReadyNotes)\<close>.\<close>

definition accumulate ::
  "MusicalNote list \<times> MusicalNote list \<Rightarrow> MusicalNote \<Rightarrow> MusicalNote list \<times> MusicalNote list" where
  "accumulate acc note =
     (case calcPositionForGame note of
        (updatedNote, readyNote) \<Rightarrow>
          ((case updatedNote of Some u \<Rightarrow> fst acc @ [u] | None \<Rightarrow> fst acc),
           (case readyNote of Some r \<Rightarrow> snd acc @ [r] | None \<Rightarrow> snd acc)))"

definition isNoteAtBottom :: "MusicalNote \<Rightarrow> bool" where
  "isNoteAtBottom note \<longleftrightarrow> fl (yPos note + 1) = LAST_ROW \<and> visible note"

definition advanceTick :: "GameState \<Rightarrow> GameState" where
  "advanceTick state =
     (let acc = foldl accumulate ([], []) (activeNotes state);
          newActiveNotes = fst acc;
          newReadyNotes = snd acc
      in state\<lparr>
           isGameOver :=
             allNotesFinished state \<and> length newActiveNotes = 0 \<and>
             length newReadyNotes = 0 \<and> length (expiredNotes state) = 0,
           activeNotes := newActiveNotes,
           notesPlayed :=
             (if length (filter isNoteAtBottom newActiveNotes) = 0
              then notesPlayed state else notesPlayed state),
           expiredNotes := activeNotes state,
           readyNotes := newReadyNotes \<rparr>)"

section \<open>The five actions\<close>

datatype GameAction =
    ReleaseButton int
  | PressButton int
  | GameTick
  | EndGame
  | AddNextNote "MusicalNote list"

subsection \<open>ReleaseButton\<close>

text \<open>The condition both passes of \<^verbatim>\<open>ReleaseButton.execute\<close> test.\<close>

definition heldTail :: "int \<Rightarrow> MusicalNote \<Rightarrow> bool" where
  "heldTail col note =
     (case tail note of
        None \<Rightarrow> False
      | Some t \<Rightarrow> column note = col \<and> \<not> visible note \<and> \<not> inactive t)"

text \<open>\<^verbatim>\<open>acc -= 1 + 0.2 * Math.floor(state.notesPlayed / 10)\<close>\<close>

definition releasePenalty :: "int \<Rightarrow> GameState \<Rightarrow> rat \<Rightarrow> MusicalNote \<Rightarrow> rat" where
  "releasePenalty col state acc note =
     (if heldTail col note
      then fl (acc - fl (1 + fl (fl (1 / 5) * of_int \<lfloor>fl (of_int (notesPlayed state) / 10)\<rfloor>)))
      else acc)"

definition releaseNote :: "int \<Rightarrow> MusicalNote \<Rightarrow> MusicalNote" where
  "releaseNote col note =
     (if heldTail col note
      then note\<lparr>tail := map_option (\<lambda>t. t\<lparr>inactive := True\<rparr>) (tail note)\<rparr>
      else note)"

definition ReleaseButton_execute :: "int \<Rightarrow> GameState \<Rightarrow> GameState" where
  "ReleaseButton_execute col state =
     (let updatedPoints =
            foldl (releasePenalty col state) (of_int (sint (points state))) (activeNotes state);
          updatedActiveNotes = map (releaseNote col) (activeNotes state)
      in state\<lparr>
           activeNotes := updatedActiveNotes,
           points := toInt32 updatedPoints,
           expiredNotes := activeNotes state \<rparr>)"

subsection \<open>PressButton\<close>

definition inHitWindow :: "int \<Rightarrow> MusicalNote \<Rightarrow> bool" where
  "inHitWindow col note \<longleftrightarrow>
     LAST_ROW - THRESHOLD \<le> yPos note \<and> yPos note < LAST_ROW \<and>
     column note = col \<and> visible note"

text \<open>
  The accumulator is the pair \<^verbatim>\<open>(activated, points)\<close>; the new points are
  \<^verbatim>\<open>acc.points + (1 + 0.2 * ~~(state.notesPlayed / 10))\<close>.
\<close>

definition pressStep :: "int \<Rightarrow> GameState \<Rightarrow> bool \<times> rat \<Rightarrow> MusicalNote \<Rightarrow> bool \<times> rat" where
  "pressStep col state acc note =
     (if inHitWindow col note
      then (True,
            fl (snd acc +
                fl (1 + fl (fl (1 / 5) *
                            of_int (sint (toInt32 (fl (of_int (notesPlayed state) / 10))))))))
      else acc)"

definition pressNote :: "int \<Rightarrow> MusicalNote \<Rightarrow> MusicalNote" where
  "pressNote col note = (if inHitWindow col note then note\<lparr>visible := False\<rparr> else note)"

definition samples :: "string list" where
  "samples = [''piano'', ''violin'', ''flute'', ''saxophone'', ''trumpet'', ''bass-electric'']"

text \<open>\<^verbatim>\<open>xs[i]\<close>: \<^verbatim>\<open>undefined\<close> outside the array.\<close>

definition js_index :: "'a list \<Rightarrow> int \<Rightarrow> 'a option" where
  "js_index xs i = (if 0 \<le> i \<and> i < int (length xs) then Some (xs ! nat i) else None)"

text \<open>
  The object literal of the source has the five fields instrument, volume, pitch,
  startTime and endTime only. Its other fields are \<^verbatim>\<open>undefined\<close> at run time; nothing
  reads them from \<^verbatim>\<open>readyNotes\<close> except \<^verbatim>\<open>tail\<close>, where \<^verbatim>\<open>undefined\<close> is \<open>None\<close>. The
  model fills them with 0 and \<open>False\<close>.
\<close>

definition incorrectNote :: "GameState \<Rightarrow> MusicalNote" where
  "incorrectNote state =
     \<lparr> id' = 0, visible = False, yPos = 0, column = 0,
       instrument =
         js_index samples
           (sint (toInt32 (scale (of_int (randomSeed state)) * of_nat (length samples)))),
       volume = sint (toInt32 (scale (of_int (randomSeed state)) * 90)),
       pitch = sint (toInt32 (scale (of_int (randomSeed state)) * 70)),
       startTime = 0,
       endTime = of_int (sint (toInt32 (scale (of_int (randomSeed state)) * 500))),
       tail = None \<rparr>"

definition resolvedWithTail :: "int \<Rightarrow> MusicalNote \<Rightarrow> bool" where
  "resolvedWithTail col note \<longleftrightarrow> column note = col \<and> \<not> visible note \<and> tail note \<noteq> None"

definition PressButton_execute :: "int \<Rightarrow> GameState \<Rightarrow> GameState" where
  "PressButton_execute col state =
     (let activationStatus =
            foldl (pressStep col state) (False, of_int (sint (points state))) (activeNotes state);
          updatedActiveNotes = map (pressNote col) (activeNotes state);
          checkWrongPress =
            (\<not> fst activationStatus \<and>
             length (filter (resolvedWithTail col) updatedActiveNotes) = 0)
      in state\<lparr>
           notesPlayed :=
             (if fst activationStatus then notesPlayed state + 1 else notesPlayed state),
           activeNotes := updatedActiveNotes,
           randomSeed := hash (randomSeed state),
           expiredNotes := activeNotes state,
           points := toInt32 (snd activationStatus),
           readyNotes :=
             (if checkWrongPress then readyNotes state @ [incorrectNote state]
              else readyNotes state) \<rparr>)"

subsection \<open>GameTick, EndGame, AddNextNote\<close>

definition GameTick_execute :: "GameState \<Rightarrow> GameState" where
  "GameTick_execute state = (advanceTick state)\<lparr>tickCount := tickCount state + 1\<rparr>"

definition EndGame_execute :: "GameState \<Rightarrow> GameState" where
  "EndGame_execute state = advanceTick (state\<lparr>allNotesFinished := True\<rparr>)"

text \<open>
  The callback of \<^verbatim>\<open>this.activeNotes.map\<close>. The new tail is written without an
  \<^verbatim>\<open>inactive\<close> field; the field is then \<^verbatim>\<open>undefined\<close>, which every test of the program
  reads as false.
\<close>

definition attachTail :: "MusicalNote \<Rightarrow> MusicalNote" where
  "attachTail note =
     (let duration = fl (endTime note - startTime note) in
      if visible note \<and> 1000 < duration then
        (let tailLength = fl (duration / RATE) in
         note\<lparr>tail := Some \<lparr> start = fl (yPos note - tailLength), end' = yPos note,
                              inactive = False \<rparr>\<rparr>)
      else note\<lparr>tail := None\<rparr>)"

definition AddNextNote_execute :: "MusicalNote list \<Rightarrow> GameState \<Rightarrow> GameState" where
  "AddNextNote_execute notes state =
     (let notesWithTail = map attachTail notes in
      advanceTick (state\<lparr>
        randomSeed := hash (randomSeed state),
        activeNotes := activeNotes state @ notesWithTail \<rparr>))"

fun execute :: "GameAction \<Rightarrow> GameState \<Rightarrow> GameState" where
  "execute (ReleaseButton col) state = ReleaseButton_execute col state"
| "execute (PressButton col) state = PressButton_execute col state"
| "execute GameTick state = GameTick_execute state"
| "execute EndGame state = EndGame_execute state"
| "execute (AddNextNote notes) state = AddNextNote_execute notes state"

text \<open>\<^verbatim>\<open>scan(applyGameAction, defaultState)\<close>: the state after a list of actions.\<close>

fun run :: "GameAction list \<Rightarrow> GameState \<Rightarrow> GameState" where
  "run [] state = state"
| "run (a # as) state = run as (execute a state)"

inductive reachable :: "GameState \<Rightarrow> bool" where
  initial: "reachable defaultState"
| step: "reachable s \<Longrightarrow> reachable (execute a s)"

subsection \<open>What one action does to one note of the board\<close>

text \<open>
  Every action rebuilds \<^verbatim>\<open>activeNotes\<close> note by note: the three ticking actions through
  \<open>calcPositionForGame\<close> (a note is dropped where its first component is \<^verbatim>\<open>null\<close>), a
  press through \<open>pressNote\<close>, a release through \<open>releaseNote\<close>. \<open>noteStep\<close> names that
  per-note function, \<open>noteTrace\<close> follows one note through a list of actions.
\<close>

fun noteStep :: "GameAction \<Rightarrow> MusicalNote \<Rightarrow> MusicalNote option" where
  "noteStep (ReleaseButton col) note = Some (releaseNote col note)"
| "noteStep (PressButton col) note = Some (pressNote col note)"
| "noteStep GameTick note = fst (calcPositionForGame note)"
| "noteStep EndGame note = fst (calcPositionForGame note)"
| "noteStep (AddNextNote notes) note = fst (calcPositionForGame note)"

fun noteTrace :: "GameAction list \<Rightarrow> MusicalNote \<Rightarrow> MusicalNote option" where
  "noteTrace [] note = Some note"
| "noteTrace (a # as) note =
     (case noteStep a note of None \<Rightarrow> None | Some note' \<Rightarrow> noteTrace as note')"

text \<open>The notes an action puts on the board before it ticks.\<close>

fun arrivingNotes :: "GameAction \<Rightarrow> MusicalNote list" where
  "arrivingNotes (AddNextNote notes) = map attachTail notes"
| "arrivingNotes a = []"

section \<open>Note scheduler\<close>












section \<open>Example inputs\<close>

text \<open>
  The song of the specification's end-to-end example. Its one note is as \<^verbatim>\<open>parseCSV\<close>
  delivers it (\<^verbatim>\<open>yPos: 0\<close>, no tail field). The note arrives, the stream of notes ends
  with it (\<^verbatim>\<open>endWith(new EndGame())\<close>), and 347 ticks take the note to row 349, the
  bottom of the hit window.
\<close>

definition shortNote :: MusicalNote where
  "shortNote =
     \<lparr> id' = 1, visible = True, yPos = 0, column = 0, instrument = Some ''piano'',
       volume = 80, pitch = 60, startTime = 0, endTime = 200, tail = None \<rparr>"

definition fallActions :: "GameAction list" where
  "fallActions = AddNextNote [shortNote] # EndGame # replicate 347 GameTick"

text \<open>
  A chord in the green column: the short note and a note of 1400 ms, which gets a tail
  of 200 rows. They arrive together, and 309 ticks take them to row 310, the top of the
  hit window.
\<close>

definition longNote :: MusicalNote where
  "longNote =
     \<lparr> id' = 2, visible = True, yPos = 0, column = 0, instrument = Some ''piano'',
       volume = 80, pitch = 64, startTime = 0, endTime = 1400, tail = None \<rparr>"

definition chordActions :: "GameAction list" where
  "chordActions = AddNextNote [shortNote, longNote] # replicate 309 GameTick"

text \<open>
  Nobody presses: 40 more ticks take the chord to the last row, where the short note is
  dropped and the long note, never caught, is resolved with its tail inactive.
\<close>

definition missedActions :: "GameAction list" where
  "missedActions = chordActions @ replicate 40 GameTick"

text \<open>The long note as it then lies on the last row.\<close>

definition missedNote :: MusicalNote where
  "missedNote =
     longNote\<lparr>yPos := 350, visible := False,
              tail := Some \<lparr> start = 150, end' = 350, inactive = True \<rparr>\<rparr>"



text \<open>
  The long note as it lies on the board just after it has been caught at row 310: it
  is resolved and its tail is held. Five such notes in the green column, in a game in
  which ten notes have been played and the score is 7; and five short notes in the hit
  window of the green column, at a score of 10.
\<close>

definition heldNote :: MusicalNote where
  "heldNote =
     longNote\<lparr>yPos := 310, visible := False,
              tail := Some \<lparr> start = 110, end' = 310, inactive = False \<rparr>\<rparr>"

definition fiveHeld :: GameState where
  "fiveHeld =
     defaultState\<lparr>notesPlayed := 10, points := 7,
       activeNotes := [heldNote, heldNote\<lparr>id' := 3\<rparr>, heldNote\<lparr>id' := 4\<rparr>,
                       heldNote\<lparr>id' := 5\<rparr>, heldNote\<lparr>id' := 6\<rparr>]\<rparr>"

definition fiveInWindow :: GameState where
  "fiveInWindow =
     defaultState\<lparr>notesPlayed := 10, points := 10,
       activeNotes := [shortNote\<lparr>yPos := 310\<rparr>, shortNote\<lparr>id' := 3, yPos := 310\<rparr>,
                       shortNote\<lparr>id' := 4, yPos := 310\<rparr>, shortNote\<lparr>id' := 5, yPos := 310\<rparr>,
                       shortNote\<lparr>id' := 6, yPos := 310\<rparr>]\<rparr>"


section \<open>Doubles\<close>


lemma bitlen_upper: "n < 2 ^ bitlen n"
proof (induction n rule: bitlen.induct)
  case (1 n)
  show ?case
  proof (cases "n = 0")
    case True
    then show ?thesis by (simp add: bitlen.simps)
  next
    case False
    with 1 have "n div 2 < 2 ^ bitlen (n div 2)" by simp
    then have "n < 2 * 2 ^ bitlen (n div 2)" by linarith
    with False show ?thesis by (subst bitlen.simps) simp
  qed
qed

lemma bitlen_lower: "0 < n \<Longrightarrow> 2 ^ (bitlen n - 1) \<le> n"
proof (induction n rule: bitlen.induct)
  case (1 n)
  show ?case
  proof (cases "n div 2 = 0")
    case True
    with 1(2) have "n = 1" by (simp add: div_eq_0_iff)
    then show ?thesis by (simp add: bitlen.simps)
  next
    case False
    with 1 have ih: "2 ^ (bitlen (n div 2) - 1) \<le> n div 2" by simp
    from False have pos: "0 < bitlen (n div 2)" by (subst bitlen.simps) simp
    from 1(2) have "bitlen n = Suc (bitlen (n div 2))" by (subst bitlen.simps) simp
    then have "2 ^ (bitlen n - 1) = 2 * 2 ^ (bitlen (n div 2) - 1)"
      using pos by (cases "bitlen (n div 2)") simp_all
    also have "\<dots> \<le> 2 * (n div 2)" using ih by simp
    also have "\<dots> \<le> n" by simp
    finally show ?thesis .
  qed
qed

lemma bitlen_pos: "0 < n \<Longrightarrow> 0 < bitlen n"
  by (subst bitlen.simps) simp

lemma expo_bounds:
  assumes "x \<noteq> 0"
  shows "2 powi expo x \<le> \<bar>x\<bar> \<and> \<bar>x\<bar> < 2 powi (expo x + 1)"
proof (cases "1 \<le> \<bar>x\<bar>")
  case True
  define n where "n = nat \<lfloor>\<bar>x\<bar>\<rfloor>"
  from True have n0: "0 < n" by (simp add: n_def)
  have e: "expo x = int (bitlen n) - 1" using True by (simp add: expo_def n_def)
  have fx: "0 \<le> \<lfloor>\<bar>x\<bar>\<rfloor>" by simp
  have nn: "(of_nat n :: rat) = of_int \<lfloor>\<bar>x\<bar>\<rfloor>"
    unfolding n_def using fx by (metis of_int_of_nat_eq nat_0_le)
  have nx: "of_nat n \<le> \<bar>x\<bar>" "\<bar>x\<bar> < of_nat n + 1"
    unfolding nn by linarith+
  from bitlen_pos [OF n0] have e': "expo x = int (bitlen n - 1)" "expo x + 1 = int (bitlen n)"
    using e by simp_all
  have "(of_nat (2 ^ (bitlen n - 1)) :: rat) \<le> of_nat n"
    using bitlen_lower [OF n0] by (simp only: of_nat_le_iff)
  then have p: "(2::rat) ^ (bitlen n - 1) \<le> of_nat n" by simp
  have "2 powi expo x = (2::rat) ^ (bitlen n - 1)" unfolding e'(1) by simp
  with p nx(1) have lo: "2 powi expo x \<le> \<bar>x\<bar>" by linarith
  have "n + 1 \<le> 2 ^ bitlen n" using bitlen_upper [of n] by simp
  then have "(of_nat (n + 1) :: rat) \<le> of_nat (2 ^ bitlen n)" by (simp only: of_nat_le_iff)
  then have "(of_nat n :: rat) + 1 \<le> 2 ^ bitlen n" by simp
  moreover have "2 powi (expo x + 1) = (2::rat) ^ bitlen n" unfolding e'(2) by simp
  ultimately have hi: "\<bar>x\<bar> < 2 powi (expo x + 1)" using nx(2) by linarith
  from lo hi show ?thesis ..
next
  case False
  define y where "y = 1 / \<bar>x\<bar>"
  from False assms have y1: "1 < y" by (simp add: y_def)
  have c1: "1 < \<lceil>y\<rceil>" using y1 by (simp add: less_ceiling_iff)
  define M where "M = nat (\<lceil>y\<rceil> - 1)"
  have M1: "0 < M" using c1 unfolding M_def by linarith
  have MM: "(of_nat M :: rat) = of_int \<lceil>y\<rceil> - 1"
  proof -
    have "0 \<le> \<lceil>y\<rceil> - 1" using c1 by simp
    then have "(of_nat M :: rat) = of_int (\<lceil>y\<rceil> - 1)"
      unfolding M_def by (metis of_int_of_nat_eq nat_0_le)
    then show ?thesis by simp
  qed
  define j where "j = bitlen M"
  have e: "expo x = - int j" using False by (simp add: expo_def j_def M_def y_def)
  have jpos: "0 < j" unfolding j_def using M1 by (rule bitlen_pos)
  have yN: "y \<le> of_nat M + 1" "of_nat M < y" unfolding MM by linarith+
  have "M < 2 ^ j" unfolding j_def by (rule bitlen_upper)
  then have "M + 1 \<le> 2 ^ j" by simp
  then have "(of_nat (M + 1) :: rat) \<le> of_nat (2 ^ j)" by (simp only: of_nat_le_iff)
  then have "(of_nat M :: rat) + 1 \<le> 2 ^ j" by simp
  with yN(1) have yle: "y \<le> 2 ^ j" by linarith
  have "2 ^ (j - 1) \<le> M" unfolding j_def using M1 by (rule bitlen_lower)
  then have "(of_nat (2 ^ (j - 1)) :: rat) \<le> of_nat M" by (simp only: of_nat_le_iff)
  then have "(2::rat) ^ (j - 1) \<le> of_nat M" by simp
  with yN(2) have ygt: "2 ^ (j - 1) < y" by linarith
  have xy: "\<bar>x\<bar> = 1 / y" by (simp add: y_def)
  have lo: "2 powi expo x \<le> \<bar>x\<bar>"
    unfolding e xy power_int_minus_divide using yle y1
    by (simp add: frac_le)
  have "expo x + 1 = - int (j - 1)" using e jpos by simp
  then have "2 powi (expo x + 1) = 1 / (2::rat) ^ (j - 1)"
    by (simp add: power_int_minus_divide)
  moreover have "1 / y < 1 / (2::rat) ^ (j - 1)"
    using ygt by (simp add: frac_less2)
  ultimately have hi: "\<bar>x\<bar> < 2 powi (expo x + 1)" unfolding xy by simp
  from lo hi show ?thesis ..
qed

lemma expo_unique:
  assumes "2 powi e \<le> \<bar>x\<bar>" and "\<bar>x\<bar> < 2 powi (e + 1)"
  shows "expo x = e"
proof -
  have "0 < (2::rat) powi e" by simp
  with assms(1) have "0 < \<bar>x\<bar>" by linarith
  then have x0: "x \<noteq> 0" by simp
  from expo_bounds [OF x0] have b: "2 powi expo x \<le> \<bar>x\<bar>" "\<bar>x\<bar> < 2 powi (expo x + 1)" by simp_all
  from assms(1) b(2) have "(2::rat) powi e < 2 powi (expo x + 1)" by simp
  then have 1: "e < expo x + 1"
    using power_int_increasing [of "expo x + 1" e "2::rat"] by (cases "e < expo x + 1") auto
  from b(1) assms(2) have "(2::rat) powi expo x < 2 powi (e + 1)" by simp
  then have 2: "expo x < e + 1"
    using power_int_increasing [of "e + 1" "expo x" "2::rat"] by (cases "expo x < e + 1") auto
  from 1 2 show ?thesis by simp
qed

lemma roundHalfEven_of_int: "roundHalfEven (of_int i) = i"
  by (simp add: roundHalfEven_def)





lemma roundHalfEven_error: "\<bar>of_int (roundHalfEven y) - y\<bar> \<le> 1 / 2"
proof -
  have "of_int \<lfloor>y\<rfloor> \<le> y" "y < of_int \<lfloor>y\<rfloor> + 1" by linarith+
  then show ?thesis by (simp add: roundHalfEven_def Let_def)
qed

lemma roundHalfEven_near:
  assumes "\<bar>d\<bar> < 1 / 2"
  shows "roundHalfEven (of_int J + d) = J"
proof (cases "0 \<le> d")
  case True
  with assms have "\<lfloor>of_int J + d\<rfloor> = J" by (intro floor_unique) simp_all
  with assms True show ?thesis by (simp add: roundHalfEven_def Let_def)
next
  case False
  with assms have "\<lfloor>of_int J + d\<rfloor> = J - 1" by (intro floor_unique) simp_all
  with assms False show ?thesis by (simp add: roundHalfEven_def Let_def)
qed


text \<open>The unit in the last place of the double nearest to \<open>x\<close>.\<close>

lemma fl_unfold: "x \<noteq> 0 \<Longrightarrow>
  fl x = 2 powi (max (expo x - 52) (- 1074)) *
         of_int (roundHalfEven (x / 2 powi (max (expo x - 52) (- 1074))))"
  by (simp add: fl_def Let_def)

lemma fl_0: "fl 0 = 0"
  by (simp add: fl_def)

lemma fl_error:
  assumes "x \<noteq> 0"
  shows "\<bar>fl x - x\<bar> \<le> 2 powi (max (expo x - 52) (- 1074)) / 2"
proof -
  define q :: rat where "q = 2 powi (max (expo x - 52) (- 1074))"
  have q0: "0 < q" by (simp add: q_def)
  have "fl x = q * of_int (roundHalfEven (x / q))"
    using assms unfolding q_def by (rule fl_unfold)
  moreover have "q * (of_int (roundHalfEven (x / q)) - x / q) =
      q * of_int (roundHalfEven (x / q)) - x"
    using q0 by (simp add: right_diff_distrib)
  ultimately have "fl x - x = q * (of_int (roundHalfEven (x / q)) - x / q)" by simp
  then have "\<bar>fl x - x\<bar> = q * \<bar>of_int (roundHalfEven (x / q)) - x / q\<bar>"
    using q0 by (simp add: abs_mult)
  also have "\<dots> \<le> q * (1 / 2)"
    using q0 roundHalfEven_error [of "x / q"] by (intro mult_left_mono) simp_all
  finally show ?thesis by (simp add: q_def)
qed

lemma expo_le:
  assumes "x \<noteq> 0" and "\<bar>x\<bar> < 2 powi b"
  shows "expo x < b"
proof -
  from expo_bounds [OF assms(1)] assms(2) have "(2::rat) powi expo x < 2 powi b" by linarith
  then show ?thesis
    using power_int_increasing [of b "expo x" "2::rat"] by (cases "expo x < b") auto
qed

lemma expo_ge:
  assumes "2 powi b \<le> \<bar>x\<bar>"
  shows "b \<le> expo x"
proof -
  have "0 < (2::rat) powi b" by simp
  with assms have "0 < \<bar>x\<bar>" by linarith
  then have x0: "x \<noteq> 0" by simp
  from expo_bounds [OF x0] assms have "(2::rat) powi b < 2 powi (expo x + 1)" by linarith
  then have "b < expo x + 1"
    using power_int_increasing [of "expo x + 1" b "2::rat"] by (cases "b < expo x + 1") auto
  then show ?thesis by simp
qed

lemma fl_close:
  assumes "\<bar>x\<bar> < 2 ^ 40"
  shows "\<bar>fl x - x\<bar> \<le> 1 / 2 ^ 13"
proof (cases "x = 0")
  case True
  then show ?thesis by (simp add: fl_0)
next
  case False
  have "\<bar>x\<bar> < 2 powi 40" using assms by simp
  with False have "expo x < 40" by (rule expo_le)
  then have "max (expo x - 52) (- 1074) \<le> - 12" by simp
  then have "(2::rat) powi (max (expo x - 52) (- 1074)) \<le> 2 powi (- 12)"
    by (intro power_int_increasing) simp_all
  with fl_error [OF False] have "\<bar>fl x - x\<bar> \<le> 2 powi (- 12) / 2" by linarith
  then show ?thesis by (simp add: power_int_minus_divide)
qed

lemma fl_of_int:
  assumes "\<bar>i\<bar> < 2 ^ 53"
  shows "fl (of_int i) = of_int i"
proof (cases "i = 0")
  case True
  then show ?thesis by (simp add: fl_0)
next
  case False
  define x :: rat where "x = of_int i"
  have x0: "x \<noteq> 0" using False by (simp add: x_def)
  have "1 \<le> \<bar>i\<bar>" using False by simp
  then have "(of_int 1 :: rat) \<le> of_int \<bar>i\<bar>" by (simp only: of_int_le_iff)
  then have "2 powi 0 \<le> \<bar>x\<bar>" by (simp add: x_def)
  then have e0: "0 \<le> expo x" by (rule expo_ge)
  have "(of_int \<bar>i\<bar> :: rat) < of_int (2 ^ 53)" using assms by (simp only: of_int_less_iff)
  then have "\<bar>x\<bar> < 2 powi 53" by (simp add: x_def)
  with x0 have e53: "expo x < 53" by (rule expo_le)
  define k where "k = nat (52 - expo x)"
  have m: "max (expo x - 52) (- 1074) = - int k" using e0 e53 by (simp add: k_def)
  have q: "(2::rat) powi (max (expo x - 52) (- 1074)) = 1 / 2 ^ k"
    unfolding m by (simp add: power_int_minus_divide)
  have "x / (1 / 2 ^ k) = of_int (i * 2 ^ k)" by (simp add: x_def)
  then have "roundHalfEven (x / (1 / 2 ^ k)) = i * 2 ^ k"
    by (simp only: roundHalfEven_of_int)
  moreover have "fl x = (1 / 2 ^ k) * of_int (roundHalfEven (x / (1 / 2 ^ k)))"
    using fl_unfold [OF x0] unfolding q .
  ultimately have "fl x = (1 / 2 ^ k) * of_int (i * 2 ^ k)" by simp
  then show ?thesis by (simp add: x_def)
qed

lemma fl_numeral: "(numeral n :: int) < 9007199254740992 \<Longrightarrow> fl (numeral n) = numeral n"
  using fl_of_int [of "numeral n"] by simp

lemma fl_neg_numeral:
  "(numeral n :: int) < 9007199254740992 \<Longrightarrow> fl (- numeral n) = - numeral n"
  using fl_of_int [of "- numeral n"] by simp

lemma fl_1: "fl 1 = 1"
  using fl_of_int [of 1] by simp

lemma fl_neg_1: "fl (- 1) = - 1"
  using fl_of_int [of "- 1"] by simp

lemmas fl_eval = fl_0 fl_1 fl_neg_1 fl_numeral fl_neg_numeral

lemma floor_rat_numeral_div: "\<lfloor>(numeral a :: rat) / numeral b\<rfloor> = numeral a div numeral b"
  using floor_divide_of_int_eq [of "numeral a" "numeral b", where ?'a = rat] by simp

lemma ceiling_rat_numeral_div:
  "\<lceil>(numeral a :: rat) / numeral b\<rceil> = - ((- numeral a) div numeral b)"
  using ceiling_divide_eq_div [of "numeral a" "numeral b", where ?'a = rat] by simp

lemmas fl_compute = fl_def expo_def roundHalfEven_def Let_def bitlen.simps
  floor_rat_numeral_div ceiling_rat_numeral_div power_int_minus_divide

lemma fl_fifth: "fl (1 / 5) = 3602879701896397 / 18014398509481984"
  by (simp add: fl_compute)








text \<open>The double \<^verbatim>\<open>0.2\<close> times a multiple of five.\<close>

lemma fl_fifth_mult:
  assumes "0 \<le> j" and "j < 2 ^ 31"
  shows "fl (fl (1 / 5) * of_int (5 * j)) = of_int j"
proof (cases "j = 0")
  case True
  then show ?thesis by (simp add: fl_0)
next
  case False
  define x :: rat where "x = fl (1 / 5) * of_int (5 * j)"
  have xj: "x = of_int j + of_int j / 2 ^ 54" by (simp add: x_def fl_fifth field_simps)
  have j1: "(1::rat) \<le> of_int j" using assms(1) False by simp
  have j31: "(of_int j :: rat) < 2 ^ 31"
  proof -
    have "(of_int j :: rat) < of_int (2 ^ 31)" using assms(2) by (simp only: of_int_less_iff)
    then show ?thesis by simp
  qed
  define e where "e = expo (of_int j :: rat)"
  have jn: "(of_int j :: rat) \<noteq> 0" using j1 by simp
  from expo_bounds [OF jn] j1
  have b: "2 powi e \<le> (of_int j :: rat)" "(of_int j :: rat) < 2 powi (e + 1)"
    by (simp_all add: e_def)
  have "2 powi 0 \<le> \<bar>of_int j :: rat\<bar>" using j1 by simp
  then have e0: "0 \<le> e" unfolding e_def by (rule expo_ge)
  have "\<bar>of_int j :: rat\<bar> < 2 powi 31" using j1 j31 by simp
  with jn have e31: "e < 31" unfolding e_def by (rule expo_le)
  define k where "k = nat e"
  have ek: "e = int k" using e0 by (simp add: k_def)
  have k31: "k < 31" using e31 ek by simp
  have lo: "(2::rat) ^ k \<le> of_int j" using b(1) by (simp add: ek)
  have "(of_int j :: rat) < 2 ^ (k + 1)"
    using b(2) unfolding ek by (metis of_nat_Suc Suc_eq_plus1 power_int_of_nat of_nat_1 of_nat_add)
  then have "(of_int j :: rat) < of_int (2 ^ (k + 1))" by simp
  then have "j < 2 ^ (k + 1)" by (simp only: of_int_less_iff)
  then have "j + 1 \<le> 2 ^ (k + 1)" by simp
  then have "(of_int (j + 1) :: rat) \<le> of_int (2 ^ (k + 1))" by (simp only: of_int_le_iff)
  then have hi: "(of_int j :: rat) + 1 \<le> 2 * 2 ^ k" by simp
  have small: "(of_int j :: rat) / 2 ^ 54 < 1" using j1 j31 by simp
  have tiny: "(0::rat) \<le> of_int j / 2 ^ 54" using j1 by simp
  have xge: "of_int j \<le> x" using tiny unfolding xj by linarith
  have xpos: "0 < x" using xge j1 by linarith
  have "(2::rat) powi e = 2 ^ k" by (simp add: ek)
  with lo xge xpos have x1: "2 powi e \<le> \<bar>x\<bar>" by linarith
  have x2: "\<bar>x\<bar> < 2 powi (e + 1)"
  proof -
    have "x < of_int j + 1" using small unfolding xj by linarith
    with hi have "x < 2 * 2 ^ k" by linarith
    moreover have "(2::rat) powi (e + 1) = 2 * 2 ^ k" by (simp add: ek power_int_add)
    ultimately show ?thesis using xpos by linarith
  qed
  from x1 x2 have ex: "expo x = e" by (rule expo_unique)
  have x0: "x \<noteq> 0" using xpos by simp
  define n where "n = 52 - k"
  have kn: "k + n = 52" using k31 by (simp add: n_def)
  have m: "max (expo x - 52) (- 1074) = - int n" unfolding ex ek n_def using k31 by simp
  have q: "(2::rat) powi (max (expo x - 52) (- 1074)) = 1 / 2 ^ n"
    unfolding m by (simp add: power_int_minus_divide)
  have p54: "(2::rat) ^ 54 = 2 ^ n * (2 ^ k * 4)"
  proof -
    have "(2::rat) ^ 54 = 2 ^ (n + (k + 2))" using kn by (simp add: add.commute)
    also have "\<dots> = 2 ^ n * (2 ^ k * 4)" by (simp only: power_add) simp
    finally show ?thesis .
  qed
  have "x / (1 / 2 ^ n) = of_int (j * 2 ^ n) + of_int j / (2 ^ k * 4)"
    unfolding xj p54 by (simp add: field_simps)
  moreover have "\<bar>(of_int j :: rat) / (2 ^ k * 4)\<bar> < 1 / 2"
  proof -
    have "(of_int j :: rat) < 2 * 2 ^ k" using hi by linarith
    then have "(of_int j :: rat) / (2 ^ k * 4) < 1 / 2" by (simp add: field_simps)
    moreover have "0 \<le> (of_int j :: rat) / (2 ^ k * 4)" using j1 by simp
    ultimately show ?thesis by linarith
  qed
  ultimately have "roundHalfEven (x / (1 / 2 ^ n)) = j * 2 ^ n"
    by (simp only: roundHalfEven_near)
  then have "fl x = (1 / 2 ^ n) * of_int (j * 2 ^ n)"
    unfolding fl_unfold [OF x0] q by simp
  then show ?thesis by (simp add: x_def)
qed

lemma floor_stable:
  assumes "of_int k + a \<le> x" and "x \<le> of_int k + 1 - a" and "\<bar>y - x\<bar> < a"
  shows "\<lfloor>y\<rfloor> = k"
  using assms by (intro floor_unique) linarith+

text \<open>\<^verbatim>\<open>notesPlayed / 10\<close> is rounded, and its integer part is the quotient.\<close>

lemma fl_tenth:
  assumes "0 \<le> n" and "n < 2 ^ 31"
  shows "\<lfloor>fl (of_int n / 10)\<rfloor> = n div 10" and "0 \<le> fl (of_int n / 10)"
proof -
  define x :: rat where "x = of_int n / 10"
  have nq: "n = 10 * (n div 10) + n mod 10" by simp
  have "(of_int n :: rat) = of_int (10 * (n div 10) + n mod 10)"
    by (rule arg_cong [where f = of_int, OF nq])
  also have "\<dots> = 10 * of_int (n div 10) + of_int (n mod 10)"
    by (simp only: of_int_add of_int_mult of_int_numeral)
  finally have xq: "x = of_int (n div 10) + of_int (n mod 10) / 10"
    by (simp add: x_def)
  have bound: "\<bar>x\<bar> < 2 ^ 40"
  proof -
    have "(of_int n :: rat) < of_int (2 ^ 31)" using assms(2) by (simp only: of_int_less_iff)
    moreover have "(0::rat) \<le> of_int n" using assms(1) by simp
    ultimately show ?thesis by (simp add: x_def)
  qed
  have close: "\<bar>fl x - x\<bar> \<le> 1 / 2 ^ 13" using bound by (rule fl_close)
  have both: "\<lfloor>fl x\<rfloor> = n div 10 \<and> 0 \<le> fl x"
  proof (cases "n mod 10 = 0")
    case True
    then have xi: "x = of_int (n div 10)" by (simp add: xq)
    have "\<bar>n div 10\<bar> < 2 ^ 53" using assms by simp
    then have "fl x = of_int (n div 10)" unfolding xi by (rule fl_of_int)
    moreover have "0 \<le> n div 10" using assms(1) by simp
    ultimately show ?thesis by simp
  next
    case False
    have "0 \<le> n mod 10" "n mod 10 < 10" by simp_all
    with False have r: "1 \<le> n mod 10" "n mod 10 \<le> 9" by simp_all
    have r1: "(1::rat) \<le> of_int (n mod 10)" using r(1) by simp
    have r9: "(of_int (n mod 10) :: rat) \<le> 9"
    proof -
      have "(of_int (n mod 10) :: rat) \<le> of_int 9" using r(2) by (simp only: of_int_le_iff)
      then show ?thesis by simp
    qed
    have a: "of_int (n div 10) + 1 / 10 \<le> x" using r1 by (simp add: xq)
    have b: "x \<le> of_int (n div 10) + 1 - 1 / 10" using r9 by (simp add: xq)
    have c: "\<bar>fl x - x\<bar> < 1 / 10" using close by simp
    from a b c have "\<lfloor>fl x\<rfloor> = n div 10" by (rule floor_stable)
    moreover have "0 \<le> fl x"
    proof -
      have "(0::rat) \<le> of_int (n div 10)" using assms(1) by simp
      with a c show ?thesis by linarith
    qed
    ultimately show ?thesis by simp
  qed
  from both show "\<lfloor>fl (of_int n / 10)\<rfloor> = n div 10" by (simp add: x_def)
  from both show "0 \<le> fl (of_int n / 10)" by (simp add: x_def)
qed

lemma multiplier_exact:
  assumes "0 \<le> k" and "k < 2 ^ 31" and "5 dvd k"
  shows "fl (1 + fl (fl (1 / 5) * of_int k)) = of_int (1 + k div 5)"
proof -
  from assms(3) have k: "k = 5 * (k div 5)" by simp
  have j: "0 \<le> k div 5" "k div 5 < 2 ^ 31" using assms(1,2) by simp_all
  have "fl (fl (1 / 5) * of_int (5 * (k div 5))) = of_int (k div 5)"
    using j by (rule fl_fifth_mult)
  then have "fl (fl (1 / 5) * of_int k) = of_int (k div 5)" using k by simp
  then have "fl (1 + fl (fl (1 / 5) * of_int k)) = fl (of_int (1 + k div 5))" by simp
  also have "\<dots> = of_int (1 + k div 5)" using j by (intro fl_of_int) simp
  finally show ?thesis .
qed

lemma multiplier_close:
  assumes "0 \<le> k" and "k < 2 ^ 31"
  shows "\<bar>fl (1 + fl (fl (1 / 5) * of_int k)) - (1 + of_int k / 5)\<bar> \<le> 3 / 2 ^ 13"
proof -
  define K :: rat where "K = of_int k"
  have K0: "0 \<le> K" using assms(1) by (simp add: K_def)
  have "(of_int k :: rat) < of_int (2 ^ 31)" using assms(2) by (simp only: of_int_less_iff)
  then have K31: "K < 2 ^ 31" by (simp add: K_def)
  define y where "y = fl (1 / 5) * K"
  have y: "y = K / 5 + K / (5 * 2 ^ 54)" by (simp add: y_def fl_fifth field_simps)
  have e1: "0 \<le> K / (5 * 2 ^ 54)" using K0 by simp
  have e2: "K / (5 * 2 ^ 54) \<le> 1 / 2 ^ 13" using K31 by (simp add: field_simps)
  have k5: "0 \<le> K / 5" "K / 5 < 536870912" using K0 K31 by simp_all
  have e3: "K / (5 * 2 ^ 54) \<le> 1" using e2 by simp
  have "\<bar>y\<bar> < 1099511627776" using e1 e3 k5 unfolding y by linarith
  then have "\<bar>y\<bar> < 2 ^ 40" by simp
  then have c1: "\<bar>fl y - y\<bar> \<le> 1 / 2 ^ 13" by (rule fl_close)
  have t1: "\<bar>fl y - K / 5\<bar> \<le> 2 / 2 ^ 13" using c1 e1 e2 unfolding y by linarith
  have t2: "\<bar>fl y - K / 5\<bar> \<le> 1" using t1 by simp
  have "\<bar>1 + fl y\<bar> < 1099511627776" using t2 k5 by linarith
  then have "\<bar>1 + fl y\<bar> < 2 ^ 40" by simp
  then have c2: "\<bar>fl (1 + fl y) - (1 + fl y)\<bar> \<le> 1 / 2 ^ 13" by (rule fl_close)
  from c2 t1 have "\<bar>fl (1 + fl y) - (1 + K / 5)\<bar> \<le> 3 / 2 ^ 13" by linarith
  then show ?thesis by (simp add: y_def K_def)
qed

lemma iterate_close:
  assumes "\<bar>d - D\<bar> \<le> 3 / 2 ^ 13" and "\<bar>D\<bar> \<le> 2 ^ 29" and "\<bar>P\<bar> \<le> 2 ^ 31"
  shows "m \<le> 4 \<Longrightarrow> \<bar>((\<lambda>a. fl (a + d)) ^^ m) P - (P + of_nat m * D)\<bar> \<le> of_nat m / 2 ^ 11"
proof (induction m)
  case 0
  show ?case by simp
next
  case (Suc m)
  define a where "a = ((\<lambda>a. fl (a + d)) ^^ m) P"
  from Suc have ih: "\<bar>a - (P + of_nat m * D)\<bar> \<le> of_nat m / 2 ^ 11" by (simp add: a_def)
  have m4: "(of_nat m :: rat) \<le> 4"
  proof -
    from Suc.prems have "m \<le> 4" by simp
    then have "(of_nat m :: rat) \<le> of_nat 4" by (simp only: of_nat_le_iff)
    then show ?thesis by simp
  qed
  have m0: "(0::rat) \<le> of_nat m" by simp
  have mD: "\<bar>of_nat m * D\<bar> \<le> 4 * 2 ^ 29"
  proof -
    have "\<bar>of_nat m * D\<bar> = of_nat m * \<bar>D\<bar>" by (simp add: abs_mult)
    also have "\<dots> \<le> 4 * 2 ^ 29" using m4 assms(2) by (intro mult_mono) simp_all
    finally show ?thesis .
  qed
  have ihb: "\<bar>a - (P + of_nat m * D)\<bar> \<le> 4 / 2 ^ 11"
  proof -
    have "(of_nat m :: rat) / 2 ^ 11 \<le> 4 / 2 ^ 11" using m4 by (simp add: divide_right_mono)
    with ih show ?thesis by linarith
  qed
  have n1: "\<bar>a - (P + of_nat m * D)\<bar> \<le> 1" using ihb by simp
  have n2: "\<bar>of_nat m * D\<bar> \<le> 2147483648" using mD by simp
  have n3: "\<bar>d - D\<bar> \<le> 1" using assms(1) by simp
  have n4: "\<bar>D\<bar> \<le> 536870912" using assms(2) by simp
  have n5: "\<bar>P\<bar> \<le> 2147483648" using assms(3) by simp
  have "\<bar>a + d\<bar> < 1099511627776" using n1 n2 n3 n4 n5 by linarith
  then have "\<bar>a + d\<bar> < 2 ^ 40" by simp
  then have c: "\<bar>fl (a + d) - (a + d)\<bar> \<le> 1 / 2 ^ 13" by (rule fl_close)
  have "((\<lambda>a. fl (a + d)) ^^ Suc m) P = fl (a + d)" by (simp add: a_def)
  moreover have "P + of_nat (Suc m) * D = (P + of_nat m * D) + D" by (simp add: algebra_simps)
  moreover have "(of_nat (Suc m) :: rat) / 2 ^ 11 = of_nat m / 2 ^ 11 + 4 / 2 ^ 13"
    by (simp add: field_simps)
  ultimately show ?case using c ih assms(1) by linarith
qed

lemma iterate_exact:
  assumes "\<bar>P\<bar> \<le> 2 ^ 31" and "\<bar>D\<bar> \<le> 2 ^ 29"
  shows "m < 2 ^ 20 \<Longrightarrow>
    ((\<lambda>a. fl (a + of_int D)) ^^ m) (of_int P) = of_int (P + int m * D)"
proof (induction m)
  case 0
  show ?case by simp
next
  case (Suc m)
  from Suc have ih: "((\<lambda>a. fl (a + of_int D)) ^^ m) (of_int P) = of_int (P + int m * D)"
    by simp
  have "\<bar>int (Suc m) * D\<bar> = int (Suc m) * \<bar>D\<bar>" by (simp add: abs_mult)
  also have "\<dots> \<le> 2 ^ 20 * 2 ^ 29"
    using Suc.prems assms(2) by (intro mult_mono) simp_all
  finally have "\<bar>P + int (Suc m) * D\<bar> < 2 ^ 53" using assms(1) by simp
  then have ex: "fl (of_int (P + int (Suc m) * D)) = of_int (P + int (Suc m) * D)"
    by (rule fl_of_int)
  have eq: "of_int (P + int m * D) + (of_int D :: rat) = of_int (P + int (Suc m) * D)"
    by (simp add: algebra_simps)
  have "((\<lambda>a. fl (a + of_int D)) ^^ Suc m) (of_int P)
      = fl (((\<lambda>a. fl (a + of_int D)) ^^ m) (of_int P) + of_int D)"
    by simp
  also have "\<dots> = fl (of_int (P + int m * D) + of_int D)" by (simp only: ih)
  also have "\<dots> = fl (of_int (P + int (Suc m) * D))" by (simp only: eq)
  also have "\<dots> = of_int (P + int (Suc m) * D)" by (rule ex)
  finally show ?case .
qed

lemma trunc_fifths:
  assumes "5 * V = of_int z" and "\<not> 5 dvd z" and "\<bar>y - V\<bar> < 1 / 5"
  shows "trunc_rat y = trunc_rat V"
proof -
  have zq: "z = 5 * (z div 5) + z mod 5" by simp
  have "(of_int z :: rat) = of_int (5 * (z div 5) + z mod 5)"
    by (rule arg_cong [where f = of_int, OF zq])
  also have "\<dots> = 5 * of_int (z div 5) + of_int (z mod 5)"
    by (simp only: of_int_add of_int_mult of_int_numeral)
  finally have V: "V = of_int (z div 5) + of_int (z mod 5) / 5"
    using assms(1) by (simp add: field_simps)
  have "0 \<le> z mod 5" "z mod 5 < 5" by simp_all
  moreover from assms(2) have "z mod 5 \<noteq> 0" by (simp add: dvd_eq_mod_eq_0)
  ultimately have r: "1 \<le> z mod 5" "z mod 5 \<le> 4" by simp_all
  have r1: "(1::rat) \<le> of_int (z mod 5)" using r(1) by simp
  have "(of_int (z mod 5) :: rat) \<le> of_int 4" using r(2) by (simp only: of_int_le_iff)
  then have r4: "(of_int (z mod 5) :: rat) \<le> 4" by simp
  define f where "f = z div 5"
  have a: "of_int f + 1 / 5 \<le> V" using r1 by (simp add: V f_def)
  have b: "V \<le> of_int f + 1 - 1 / 5" using r4 by (simp add: V f_def)
  have fy: "\<lfloor>y\<rfloor> = f" using a b assms(3) by (rule floor_stable)
  have fV: "\<lfloor>V\<rfloor> = f" using a b by (intro floor_unique) linarith+
  have ylo: "of_int f < y" and yhi: "y < of_int f + 1" using a b assms(3) by linarith+
  show ?thesis
  proof (cases "0 \<le> f")
    case True
    then have "(0::rat) \<le> of_int f" by simp
    with a ylo have "0 \<le> V" "0 \<le> y" by linarith+
    with fy fV show ?thesis by (simp add: trunc_rat_def)
  next
    case False
    then have "f + 1 \<le> 0" by simp
    then have "(of_int (f + 1) :: rat) \<le> of_int 0" by (simp only: of_int_le_iff)
    then have f1: "(of_int f :: rat) + 1 \<le> 0" by simp
    with b yhi have neg: "V < 0" "y < 0" by linarith+
    have cy: "\<lceil>y\<rceil> = f + 1" using ylo yhi by (intro ceiling_unique) simp_all
    have cV: "\<lceil>V\<rceil> = f + 1" using a b by (intro ceiling_unique) simp_all
    from neg cy cV show ?thesis by (simp add: trunc_rat_def)
  qed
qed

text \<open>
  The multiplier added or taken \<open>m\<close> times in doubles, and the same sum in exact
  arithmetic: they have the same integer part when at most four notes score at once, or
  when the multiplier is an integer.
\<close>

lemma score_iterate:
  assumes k: "0 \<le> k" "k < 2 ^ 31" and P: "\<bar>P\<bar> \<le> 2 ^ 31"
    and m: "m \<le> 4 \<or> (5 dvd k \<and> m < 2 ^ 20)" and s: "s = 1 \<or> s = - 1"
  shows "trunc_rat (((\<lambda>a. fl (a + of_int s * fl (1 + fl (fl (1 / 5) * of_int k)))) ^^ m) (of_int P))
       = trunc_rat (of_int P + of_int s * (of_nat m * (1 + of_int k / 5)))"
proof (cases "5 dvd k")
  case True
  have m20: "m < 2 ^ 20" using m True by auto
  from True have kk: "k = 5 * (k div 5)" by simp
  have "(of_int k :: rat) = of_int (5 * (k div 5))"
    by (rule arg_cong [where f = of_int, OF kk])
  also have "\<dots> = 5 * of_int (k div 5)" by (simp only: of_int_mult of_int_numeral)
  finally have k5: "(of_int k :: rat) / 5 = of_int (k div 5)" by simp
  have d: "of_int s * fl (1 + fl (fl (1 / 5) * of_int k)) = of_int (s * (1 + k div 5))"
    using multiplier_exact [OF k True] by simp
  have D: "\<bar>s * (1 + k div 5)\<bar> \<le> 2 ^ 29" using s k by auto
  have it: "((\<lambda>a. fl (a + of_int (s * (1 + k div 5)))) ^^ m) (of_int P)
      = of_int (P + int m * (s * (1 + k div 5)))"
    using P D m20 by (rule iterate_exact)
  have val: "(of_int (P + int m * (s * (1 + k div 5))) :: rat)
      = of_int P + of_int s * (of_nat m * (1 + of_int k / 5))"
    by (simp add: k5 algebra_simps)
  show ?thesis by (simp only: d it val)
next
  case False
  with m have m4: "m \<le> 4" by simp
  define d :: rat where "d = of_int s * fl (1 + fl (fl (1 / 5) * of_int k))"
  define D :: rat where "D = of_int s * (1 + of_int k / 5)"
  have sa: "\<bar>of_int s :: rat\<bar> = 1" using s by auto
  have "d - D = of_int s * (fl (1 + fl (fl (1 / 5) * of_int k)) - (1 + of_int k / 5))"
    by (simp add: d_def D_def algebra_simps)
  then have "\<bar>d - D\<bar> = \<bar>fl (1 + fl (fl (1 / 5) * of_int k)) - (1 + of_int k / 5)\<bar>"
    by (simp add: abs_mult sa)
  with multiplier_close [OF k] have dD: "\<bar>d - D\<bar> \<le> 3 / 2 ^ 13" by simp
  have K0: "(0::rat) \<le> of_int k" using k(1) by simp
  have "(of_int k :: rat) < of_int (2 ^ 31)" using k(2) by (simp only: of_int_less_iff)
  then have K31: "(of_int k :: rat) < 2 ^ 31" by simp
  have "\<bar>D\<bar> = \<bar>1 + of_int k / 5 :: rat\<bar>" by (simp add: D_def abs_mult sa)
  also have "\<dots> \<le> 2 ^ 29" using K0 K31 by simp
  finally have Db: "\<bar>D\<bar> \<le> 2 ^ 29" .
  have "\<bar>of_int P :: rat\<bar> = of_int \<bar>P\<bar>" by simp
  also have "\<dots> \<le> of_int (2 ^ 31)" using P by (simp only: of_int_le_iff)
  finally have Pb: "\<bar>of_int P :: rat\<bar> \<le> 2 ^ 31" by simp
  have close: "\<bar>((\<lambda>a. fl (a + d)) ^^ m) (of_int P) - (of_int P + of_nat m * D)\<bar>
      \<le> of_nat m / 2 ^ 11"
    using dD Db Pb m4 by (rule iterate_close)
  have "(of_nat m :: rat) \<le> of_nat 4" using m4 by (simp only: of_nat_le_iff)
  then have "(of_nat m :: rat) / 2 ^ 11 \<le> 4 / 2 ^ 11" by (simp add: divide_right_mono)
  with close have near:
    "\<bar>((\<lambda>a. fl (a + d)) ^^ m) (of_int P) - (of_int P + of_nat m * D)\<bar> < 1 / 5"
    by simp
  show ?thesis
  proof (cases "m = 0")
    case True
    then show ?thesis by simp
  next
    case m0: False
    define z where "z = 5 * P + s * (5 * int m + int m * k)"
    have z: "5 * (of_int P + of_nat m * D) = (of_int z :: rat)"
      by (simp add: z_def D_def field_simps)
    from m0 m4 consider "m = 1" | "m = 2" | "m = 3" | "m = 4" by linarith
    then have "\<not> 5 dvd z"
    proof cases
      case 1
      with s False show ?thesis unfolding z_def by (elim disjE) (simp; presburger)+
    next
      case 2
      with s False show ?thesis unfolding z_def by (elim disjE) (simp; presburger)+
    next
      case 3
      with s False show ?thesis unfolding z_def by (elim disjE) (simp; presburger)+
    next
      case 4
      with s False show ?thesis unfolding z_def by (elim disjE) (simp; presburger)+
    qed
    from z this near
    have "trunc_rat (((\<lambda>a. fl (a + d)) ^^ m) (of_int P)) = trunc_rat (of_int P + of_nat m * D)"
      by (rule trunc_fifths)
    then show ?thesis by (simp add: d_def D_def algebra_simps)
  qed
qed






section \<open>The generator\<close>






lemma scale_eq: "scale h = h / 2147483647"
  by (simp add: scale_def RNG_modulus_def)

lemmas hash_eval = hash_def js_rem_def RNG_multiplier_def RNG_increment_def RNG_modulus_def
  fl64_def bitlen.simps roundTiesToEven_def Let_def

lemma defaultSeed: "hash 3847589 = 1593167226"
  by (simp add: hash_eval)

section \<open>The reducer\<close>

lemma foldl_accumulate:
  "foldl accumulate acc ns =
     (fst acc @ List.map_filter (\<lambda>n. fst (calcPositionForGame n)) ns,
      snd acc @ List.map_filter (\<lambda>n. snd (calcPositionForGame n)) ns)"
proof (induction ns arbitrary: acc)
  case Nil
  show ?case by (simp add:)
next
  case (Cons n ns)
  obtain u r where c: "calcPositionForGame n = (u, r)" by (cases "calcPositionForGame n")
  have "foldl accumulate acc (n # ns) = foldl accumulate (accumulate acc n) ns" by simp
  also have "\<dots> =
     (fst (accumulate acc n) @ List.map_filter (\<lambda>n. fst (calcPositionForGame n)) ns,
      snd (accumulate acc n) @ List.map_filter (\<lambda>n. snd (calcPositionForGame n)) ns)"
    by (rule Cons.IH)
  also have "\<dots> =
     (fst acc @ List.map_filter (\<lambda>n. fst (calcPositionForGame n)) (n # ns),
      snd acc @ List.map_filter (\<lambda>n. snd (calcPositionForGame n)) (n # ns))"
    using c by (cases u; cases r) (simp_all add: accumulate_def)
  finally show ?case .
qed

lemma activeNotes_advanceTick:
  "activeNotes (advanceTick s) = List.map_filter (\<lambda>n. fst (calcPositionForGame n)) (activeNotes s)"
  by (simp add: advanceTick_def foldl_accumulate Let_def)

lemma readyNotes_advanceTick:
  "readyNotes (advanceTick s) = List.map_filter (\<lambda>n. snd (calcPositionForGame n)) (activeNotes s)"
  by (simp add: advanceTick_def foldl_accumulate Let_def)

lemma expiredNotes_advanceTick: "expiredNotes (advanceTick s) = activeNotes s"
  by (simp add: advanceTick_def Let_def)

lemma isGameOver_advanceTick:
  "isGameOver (advanceTick s) \<longleftrightarrow>
     allNotesFinished s \<and> activeNotes (advanceTick s) = [] \<and>
     readyNotes (advanceTick s) = [] \<and> expiredNotes s = []"
  by (simp add: advanceTick_def Let_def)

lemma frame_advanceTick:
  "allNotesFinished (advanceTick s) = allNotesFinished s"
  "points (advanceTick s) = points s"
  "notesPlayed (advanceTick s) = notesPlayed s"
  "randomSeed (advanceTick s) = randomSeed s"
  "tickCount (advanceTick s) = tickCount s"
  by (simp_all add: advanceTick_def Let_def)

lemma reachable_run: "reachable s \<Longrightarrow> reachable (run as s)"
  by (induction as arbitrary: s) (auto intro: reachable.step)

lemma reachable_expired: "reachable s \<Longrightarrow> expiredNotes s = [] \<Longrightarrow> activeNotes s = []"
proof (induction rule: reachable.induct)
  case initial
  show ?case by (simp add: defaultState_def)
next
  case (step s a)
  then show ?case
    by (cases a)
       (auto simp: ReleaseButton_execute_def PressButton_execute_def GameTick_execute_def
          EndGame_execute_def AddNextNote_execute_def Let_def expiredNotes_advanceTick
          activeNotes_advanceTick)
qed

lemma run_append: "run (as @ bs) s = run bs (run as s)"
  by (induction as arbitrary: s) simp_all

section \<open>Scores\<close>

lemma trunc_rat_of_int: "trunc_rat (of_int i) = i"
  by (simp add: trunc_rat_def)

lemma toInt32_points: "toInt32 (of_int (sint (p :: 32 word))) = p"
proof -
  have "trunc_rat (of_int (sint p)) = sint p" by (rule trunc_rat_of_int)
  then show ?thesis unfolding toInt32_def by simp
qed

lemma sint_toInt32:
  "- 2147483648 \<le> trunc_rat x \<Longrightarrow> trunc_rat x < 2147483648 \<Longrightarrow> sint (toInt32 x) = trunc_rat x"
  by (simp add: toInt32_def sint_sbintrunc' signed_take_bit_int_eq_self)

text \<open>
  Both reductions add the same double to the accumulator once for every note that counts,
  rounding after each addition.
\<close>

lemma foldl_releasePenalty:
  "foldl (releasePenalty c s) acc ns =
     ((\<lambda>a. fl (a - fl (1 + fl (fl (1 / 5) * of_int \<lfloor>fl (of_int (notesPlayed s) / 10)\<rfloor>))))
        ^^ length (filter (heldTail c) ns)) acc"
proof -
  define g :: "rat \<Rightarrow> rat" where
    "g = (\<lambda>a. fl (a - fl (1 + fl (fl (1 / 5) * of_int \<lfloor>fl (of_int (notesPlayed s) / 10)\<rfloor>))))"
  have step: "releasePenalty c s a n = (if heldTail c n then g a else a)" for a n
    by (simp add: releasePenalty_def g_def)
  have "foldl (releasePenalty c s) acc ns = (g ^^ length (filter (heldTail c) ns)) acc"
  proof (induction ns arbitrary: acc)
    case Nil
    show ?case by simp
  next
    case (Cons n ns)
    have "foldl (releasePenalty c s) acc (n # ns) =
          foldl (releasePenalty c s) (releasePenalty c s acc n) ns"
      by simp
    also have "\<dots> = (g ^^ length (filter (heldTail c) ns)) (releasePenalty c s acc n)"
      by (rule Cons.IH)
    also have "\<dots> = (g ^^ length (filter (heldTail c) (n # ns))) acc"
      by (simp add: step funpow_swap1)
    finally show ?case .
  qed
  then show ?thesis by (simp only: g_def)
qed

lemma release_points:
  "points (ReleaseButton_execute c s) =
     toInt32 (((\<lambda>a. fl (a - fl (1 + fl (fl (1 / 5) *
                 of_int \<lfloor>fl (of_int (notesPlayed s) / 10)\<rfloor>))))
                ^^ length (filter (heldTail c) (activeNotes s))) (of_int (sint (points s))))"
  by (simp add: ReleaseButton_execute_def Let_def foldl_releasePenalty)

lemma map_releaseNote_none:
  "\<forall>n \<in> set ns. \<not> heldTail c n \<Longrightarrow> map (releaseNote c) ns = ns"
  by (induction ns) (simp_all add: releaseNote_def)

lemma foldl_pressStep:
  "foldl (pressStep c s) acc ns =
     (fst acc \<or> (\<exists>n \<in> set ns. inHitWindow c n),
      ((\<lambda>a. fl (a + fl (1 + fl (fl (1 / 5) *
                of_int (sint (toInt32 (fl (of_int (notesPlayed s) / 10))))))))
         ^^ length (filter (inHitWindow c) ns)) (snd acc))"
proof -
  define g :: "rat \<Rightarrow> rat" where
    "g = (\<lambda>a. fl (a + fl (1 + fl (fl (1 / 5) *
                of_int (sint (toInt32 (fl (of_int (notesPlayed s) / 10))))))))"
  have step: "pressStep c s a n = (if inHitWindow c n then (True, g (snd a)) else a)" for a n
    by (simp add: pressStep_def g_def)
  have "foldl (pressStep c s) acc ns =
     (fst acc \<or> (\<exists>n \<in> set ns. inHitWindow c n),
      (g ^^ length (filter (inHitWindow c) ns)) (snd acc))"
  proof (induction ns arbitrary: acc)
    case Nil
    show ?case by simp
  next
    case (Cons n ns)
    have "foldl (pressStep c s) acc (n # ns) = foldl (pressStep c s) (pressStep c s acc n) ns"
      by simp
    also have "\<dots> = (fst (pressStep c s acc n) \<or> (\<exists>n \<in> set ns. inHitWindow c n),
        (g ^^ length (filter (inHitWindow c) ns)) (snd (pressStep c s acc n)))"
      by (rule Cons.IH)
    also have "\<dots> = (fst acc \<or> (\<exists>n \<in> set (n # ns). inHitWindow c n),
        (g ^^ length (filter (inHitWindow c) (n # ns))) (snd acc))"
      by (simp add: step funpow_swap1)
    finally show ?case .
  qed
  then show ?thesis by (simp only: g_def)
qed

text \<open>For a count of notes played, \<^verbatim>\<open>~~(n / 10)\<close> and \<^verbatim>\<open>Math.floor(n / 10)\<close> are the quotient.\<close>

lemma tilde_div10:
  assumes "0 \<le> n" and "n < 2147483648"
  shows "sint (toInt32 (fl (of_int n / 10))) = n div 10"
proof -
  from assms have n: "n < 2 ^ 31" by simp
  have "trunc_rat (fl (of_int n / 10)) = \<lfloor>fl (of_int n / 10)\<rfloor>"
    using fl_tenth(2) [OF assms(1) n] by (simp add: trunc_rat_def)
  also have "\<dots> = n div 10" using assms(1) n by (rule fl_tenth(1))
  finally have t: "trunc_rat (fl (of_int n / 10)) = n div 10" .
  from assms have "0 \<le> n div 10" and "n div 10 < 2147483648" by auto
  with t show ?thesis by (simp add: sint_toInt32)
qed

lemma floor_div10:
  assumes "0 \<le> n" and "n < 2147483648"
  shows "\<lfloor>fl (of_int n / 10)\<rfloor> = n div 10"
proof -
  from assms have n: "n < 2 ^ 31" by simp
  from assms(1) n show ?thesis by (rule fl_tenth(1))
qed

lemma sint_bounds: "\<bar>sint (p :: 32 word)\<bar> \<le> 2 ^ 31"
  using sint_ge [of p] sint_lt [of p] by simp

text \<open>
  The sum of the score in doubles and in exact arithmetic, written back by \<^verbatim>\<open>~~\<close>.
\<close>

lemma score_added:
  assumes "0 \<le> n" and "n < 2147483648"
    and "m \<le> 4 \<or> (5 dvd n div 10 \<and> m < 2 ^ 20)"
  shows "toInt32 (((\<lambda>a. fl (a + fl (1 + fl (fl (1 / 5) * of_int (n div 10))))) ^^ m)
                    (of_int (sint (p :: 32 word))))
       = toInt32 (of_int (sint p) + of_nat m * (1 + (1 / 5) * of_int (n div 10)))"
proof -
  have k: "0 \<le> n div 10" "n div 10 < 2 ^ 31" using assms(1,2) by simp_all
  have s: "(1::int) = 1 \<or> (1::int) = - 1" by simp
  from score_iterate [OF k sint_bounds assms(3) s, of p]
  show ?thesis by (simp add: toInt32_def)
qed

lemma score_taken:
  assumes "0 \<le> n" and "n < 2147483648"
    and "m \<le> 4 \<or> (5 dvd n div 10 \<and> m < 2 ^ 20)"
  shows "toInt32 (((\<lambda>a. fl (a - fl (1 + fl (fl (1 / 5) * of_int (n div 10))))) ^^ m)
                    (of_int (sint (p :: 32 word))))
       = toInt32 (of_int (sint p) - of_nat m * (1 + (1 / 5) * of_int (n div 10)))"
proof -
  have k: "0 \<le> n div 10" "n div 10 < 2 ^ 31" using assms(1,2) by simp_all
  have s: "(- 1::int) = 1 \<or> (- 1::int) = - 1" by simp
  from score_iterate [OF k sint_bounds assms(3) s, of p]
  show ?thesis by (simp add: toInt32_def)
qed

lemma trunc_rat_add_int:
  "0 \<le> p \<Longrightarrow> 0 \<le> x \<Longrightarrow> trunc_rat (of_int p + x) = p + \<lfloor>x\<rfloor>"
  by (simp add: trunc_rat_def)

lemma press_fields:
  "notesPlayed (PressButton_execute c s) =
     (if \<exists>n \<in> set (activeNotes s). inHitWindow c n then notesPlayed s + 1 else notesPlayed s)"
  "activeNotes (PressButton_execute c s) = map (pressNote c) (activeNotes s)"
  "points (PressButton_execute c s) =
     toInt32 (((\<lambda>a. fl (a + fl (1 + fl (fl (1 / 5) *
                 of_int (sint (toInt32 (fl (of_int (notesPlayed s) / 10))))))))
                ^^ length (filter (inHitWindow c) (activeNotes s))) (of_int (sint (points s))))"
  "randomSeed (PressButton_execute c s) = hash (randomSeed s)"
  "readyNotes (PressButton_execute c s) =
     (if (\<forall>n \<in> set (activeNotes s). \<not> inHitWindow c n) \<and>
         filter (resolvedWithTail c) (map (pressNote c) (activeNotes s)) = []
      then readyNotes s @ [incorrectNote s] else readyNotes s)"
  by (simp_all add: PressButton_execute_def Let_def foldl_pressStep)

lemma fl_tenth_one: "\<lfloor>fl (1 / 10)\<rfloor> = 0"
  using floor_div10 [of 1] by simp

lemma map_pressNote_miss:
  "\<forall>n \<in> set ns. \<not> inHitWindow c n \<Longrightarrow> map (pressNote c) ns = ns"
  by (induction ns) (simp_all add: pressNote_def)

section \<open>One note through the actions\<close>

lemma noteStep_tail_presence:
  "noteStep a n = Some n' \<Longrightarrow> (tail n' = None) = (tail n = None)"
  by (cases a)
     (auto simp: releaseNote_def pressNote_def calcPositionForGame_def updateNoteYPos_def
        Let_def split: option.splits if_splits)

lemma noteStep_inactive:
  "noteStep a n = Some n' \<Longrightarrow> tail n = Some t \<Longrightarrow> inactive t \<Longrightarrow> \<not> visible n \<Longrightarrow>
     \<exists>t'. tail n' = Some t' \<and> inactive t' \<and> \<not> visible n'"
  by (cases a)
     (auto simp: releaseNote_def pressNote_def inHitWindow_def calcPositionForGame_def
        updateNoteYPos_def adjustTail_def Let_def split: option.splits if_splits)

lemma noteStep_settled:
  "noteStep a n = Some n' \<Longrightarrow> \<forall>t. tail n = Some t \<longrightarrow> inactive t \<longrightarrow> \<not> visible n \<Longrightarrow>
     \<forall>t. tail n' = Some t \<longrightarrow> inactive t \<longrightarrow> \<not> visible n'"
  by (cases a)
     (auto simp: releaseNote_def pressNote_def heldTail_def inHitWindow_def
        calcPositionForGame_def updateNoteYPos_def adjustTail_def Let_def
        split: option.splits if_splits)

lemma attachTail_settled:
  "\<forall>t. tail (attachTail n) = Some t \<longrightarrow> inactive t \<longrightarrow> \<not> visible (attachTail n)"
  by (simp add: attachTail_def Let_def)

lemma map_filter_Some: "List.map_filter (\<lambda>x. Some (f x)) xs = map f xs"
  by (induction xs) simp_all

lemma set_map_filter: "set (List.map_filter f xs) = {y. \<exists>x \<in> set xs. f x = Some y}"
  by (induction xs) (auto split: option.splits)

lemma noteStep_fun:
  "noteStep (ReleaseButton c) = (\<lambda>n. Some (releaseNote c n))"
  "noteStep (PressButton c) = (\<lambda>n. Some (pressNote c n))"
  "noteStep GameTick = (\<lambda>n. fst (calcPositionForGame n))"
  "noteStep EndGame = (\<lambda>n. fst (calcPositionForGame n))"
  "noteStep (AddNextNote g) = (\<lambda>n. fst (calcPositionForGame n))"
  by (rule ext, simp)+

lemma activeNotes_execute:
  "activeNotes (execute a s) = List.map_filter (noteStep a) (activeNotes s @ arrivingNotes a)"
proof (cases a)
  case (ReleaseButton c)
  then show ?thesis by (simp add: ReleaseButton_execute_def Let_def map_filter_Some noteStep_fun)
next
  case (PressButton c)
  then show ?thesis by (simp add: PressButton_execute_def Let_def map_filter_Some noteStep_fun)
next
  case GameTick
  then show ?thesis by (simp add: GameTick_execute_def activeNotes_advanceTick noteStep_fun)
next
  case EndGame
  then show ?thesis by (simp add: EndGame_execute_def activeNotes_advanceTick noteStep_fun)
next
  case (AddNextNote g)
  then show ?thesis by (simp add: AddNextNote_execute_def Let_def activeNotes_advanceTick noteStep_fun)
qed

lemma reachable_settled:
  "reachable s \<Longrightarrow>
     \<forall>n \<in> set (activeNotes s). \<forall>t. tail n = Some t \<longrightarrow> inactive t \<longrightarrow> \<not> visible n"
proof (induction rule: reachable.induct)
  case initial
  show ?case by (simp add: defaultState_def)
next
  case (step s a)
  show ?case
  proof
    fix n' assume "n' \<in> set (activeNotes (execute a s))"
    then obtain n where n: "n \<in> set (activeNotes s) \<or> n \<in> set (arrivingNotes a)"
      and st: "noteStep a n = Some n'"
      by (auto simp: activeNotes_execute set_map_filter)
    from n have "\<forall>t. tail n = Some t \<longrightarrow> inactive t \<longrightarrow> \<not> visible n"
    proof
      assume "n \<in> set (activeNotes s)"
      with step.IH show ?thesis by blast
    next
      assume "n \<in> set (arrivingNotes a)"
      then show ?thesis by (cases a) (auto simp: attachTail_settled)
    qed
    with st show "\<forall>t. tail n' = Some t \<longrightarrow> inactive t \<longrightarrow> \<not> visible n'"
      by (rule noteStep_settled)
  qed
qed

lemma noteStep_active:
  "n \<in> set (activeNotes s) \<Longrightarrow> noteStep a n = Some n' \<Longrightarrow> n' \<in> set (activeNotes (execute a s))"
  by (auto simp: activeNotes_execute set_map_filter)


section \<open>The scheduler\<close>
















section \<open>Evaluating the example runs\<close>

lemmas tick_eval = GameTick_execute_def EndGame_execute_def AddNextNote_execute_def advanceTick_def
  accumulate_def calcPositionForGame_def updateNoteYPos_def adjustTail_def attachTail_def
  isNoteAtBottom_def INCREMENT_def LAST_ROW_def RATE_def THRESHOLD_def Let_def fl_eval

lemma run_fallActions:
  "run fallActions defaultState =
     \<lparr> isGameOver = False, allNotesFinished = True, tickCount = 347,
       randomSeed = hash (hash 3847589), notesPlayed = 0, points = 0,
       activeNotes = [shortNote\<lparr>yPos := 349\<rparr>],
       expiredNotes = [shortNote\<lparr>yPos := 348\<rparr>], readyNotes = [] \<rparr>"
  by (simp add: fallActions_def shortNote_def defaultState_def tick_eval eval_nat_numeral)

lemma run_chordActions:
  "run chordActions defaultState =
     \<lparr> isGameOver = False, allNotesFinished = False, tickCount = 309,
       randomSeed = hash (hash 3847589), notesPlayed = 0, points = 0,
       activeNotes =
         [shortNote\<lparr>yPos := 310\<rparr>,
          longNote\<lparr>yPos := 310,
                   tail := Some \<lparr> start = 110, end' = 310, inactive = False \<rparr>\<rparr>],
       expiredNotes =
         [shortNote\<lparr>yPos := 309\<rparr>,
          longNote\<lparr>yPos := 309,
                   tail := Some \<lparr> start = 109, end' = 309, inactive = False \<rparr>\<rparr>],
       readyNotes = [] \<rparr>"
  by (simp add: chordActions_def shortNote_def longNote_def defaultState_def tick_eval
        eval_nat_numeral)

lemma run_missedActions:
  "run missedActions defaultState =
     \<lparr> isGameOver = False, allNotesFinished = False, tickCount = 349,
       randomSeed = hash (hash 3847589), notesPlayed = 0, points = 0,
       activeNotes =
         [longNote\<lparr>yPos := 350, visible := False,
                   tail := Some \<lparr> start = 150, end' = 350, inactive = True \<rparr>\<rparr>],
       expiredNotes =
         [shortNote\<lparr>yPos := 349\<rparr>,
          longNote\<lparr>yPos := 349,
                   tail := Some \<lparr> start = 149, end' = 349, inactive = False \<rparr>\<rparr>],
       readyNotes = [] \<rparr>"
  unfolding missedActions_def run_append run_chordActions
  by (simp add: shortNote_def longNote_def tick_eval eval_nat_numeral)

lemma press_chord:
  "execute (PressButton 0) (run chordActions defaultState) =
     \<lparr> isGameOver = False, allNotesFinished = False, tickCount = 309,
       randomSeed = hash (hash (hash 3847589)), notesPlayed = 1, points = 2,
       activeNotes =
         [shortNote\<lparr>yPos := 310, visible := False\<rparr>,
          longNote\<lparr>yPos := 310, visible := False,
                   tail := Some \<lparr> start = 110, end' = 310, inactive = False \<rparr>\<rparr>],
       expiredNotes =
         [shortNote\<lparr>yPos := 310\<rparr>,
          longNote\<lparr>yPos := 310,
                   tail := Some \<lparr> start = 110, end' = 310, inactive = False \<rparr>\<rparr>],
       readyNotes = [] \<rparr>"
  by (simp add: run_chordActions PressButton_execute_def pressStep_def pressNote_def
        inHitWindow_def resolvedWithTail_def shortNote_def longNote_def LAST_ROW_def
        THRESHOLD_def Let_def toInt32_def trunc_rat_def fl_eval)

lemma filler_eval:
  "sint (toInt32 (scale 1593167226 * 6)) = 4"
  "sint (toInt32 (scale 1593167226 * 90)) = 66"
  "sint (toInt32 (scale 1593167226 * 70)) = 51"
  "sint (toInt32 (scale 1593167226 * 500)) = 370"
  "sint (toInt32 (scale 966777088 * 90)) = 40"
  "sint (toInt32 (scale 321754368 * 70)) = 10"
  "sint (toInt32 (scale 1271832896 * 500)) = 296"
  by (simp_all add: scale_eq toInt32_def trunc_rat_def floor_rat_numeral_div)

lemma hash_chain:
  "hash 1593167226 = 966777088" "hash 966777088 = 321754368" "hash 321754368 = 1271832896"
  by (simp_all add: hash_eval)

lemma press_default:
  "readyNotes (execute (PressButton 0) defaultState) =
     [\<lparr> id' = 0, visible = False, yPos = 0, column = 0, instrument = Some ''trumpet'',
        volume = 66, pitch = 51, startTime = 0, endTime = 370, tail = None \<rparr>]"
  by (simp add: press_fields defaultState_def defaultSeed incorrectNote_def filler_eval
        samples_def js_index_def)

lemma press_missed:
  "readyNotes (execute (PressButton 0) (run missedActions defaultState)) = []"
  by (simp add: press_fields run_missedActions pressNote_def inHitWindow_def
        resolvedWithTail_def longNote_def LAST_ROW_def THRESHOLD_def)


section \<open>C1: the game-over flag\<close>

text \<open>
  C1, as the code has it. After a tick, the end of the song or the arrival of a note
  group, \<open>isGameOver\<close> holds exactly when \<open>allNotesFinished\<close> holds, the new
  \<open>activeNotes\<close> and \<open>readyNotes\<close> are empty, and the \<open>expiredNotes\<close> of the state
  \<^emph>\<open>before\<close> the action are empty. A press and a release leave \<open>isGameOver\<close> as it
  was. In a reachable state, a tick or the end of the song that sets \<open>isGameOver\<close>
  leaves all three collections empty.
\<close>

theorem gameOver_after_action:
  "(isGameOver (execute GameTick s) \<longleftrightarrow>
      allNotesFinished (execute GameTick s) \<and> activeNotes (execute GameTick s) = [] \<and>
      readyNotes (execute GameTick s) = [] \<and> expiredNotes s = []) \<and>
   (isGameOver (execute EndGame s) \<longleftrightarrow>
      allNotesFinished (execute EndGame s) \<and> activeNotes (execute EndGame s) = [] \<and>
      readyNotes (execute EndGame s) = [] \<and> expiredNotes s = []) \<and>
   (isGameOver (execute (AddNextNote g) s) \<longleftrightarrow>
      allNotesFinished (execute (AddNextNote g) s) \<and>
      activeNotes (execute (AddNextNote g) s) = [] \<and>
      readyNotes (execute (AddNextNote g) s) = [] \<and> expiredNotes s = []) \<and>
   isGameOver (execute (PressButton c) s) = isGameOver s \<and>
   isGameOver (execute (ReleaseButton c) s) = isGameOver s \<and>
   (reachable s \<and> a \<in> {GameTick, EndGame} \<and> isGameOver (execute a s) \<longrightarrow>
      allNotesFinished (execute a s) \<and> activeNotes (execute a s) = [] \<and>
      readyNotes (execute a s) = [] \<and> expiredNotes (execute a s) = [])"
proof -
  have tick: "isGameOver (execute GameTick s) \<longleftrightarrow>
      allNotesFinished (execute GameTick s) \<and> activeNotes (execute GameTick s) = [] \<and>
      readyNotes (execute GameTick s) = [] \<and> expiredNotes s = []"
    by (simp add: GameTick_execute_def isGameOver_advanceTick frame_advanceTick)
  have endg: "isGameOver (execute EndGame s) \<longleftrightarrow>
      allNotesFinished (execute EndGame s) \<and> activeNotes (execute EndGame s) = [] \<and>
      readyNotes (execute EndGame s) = [] \<and> expiredNotes s = []"
    by (simp add: EndGame_execute_def isGameOver_advanceTick frame_advanceTick)
  have add: "isGameOver (execute (AddNextNote g) s) \<longleftrightarrow>
      allNotesFinished (execute (AddNextNote g) s) \<and>
      activeNotes (execute (AddNextNote g) s) = [] \<and>
      readyNotes (execute (AddNextNote g) s) = [] \<and> expiredNotes s = []"
    by (simp add: AddNextNote_execute_def isGameOver_advanceTick frame_advanceTick Let_def)
  have press: "isGameOver (execute (PressButton c) s) = isGameOver s"
    by (simp add: PressButton_execute_def Let_def)
  have release: "isGameOver (execute (ReleaseButton c) s) = isGameOver s"
    by (simp add: ReleaseButton_execute_def Let_def)
  have only_if: "allNotesFinished (execute a s) \<and> activeNotes (execute a s) = [] \<and>
      readyNotes (execute a s) = [] \<and> expiredNotes (execute a s) = []"
    if r: "reachable s" and a: "a \<in> {GameTick, EndGame}"
      and over: "isGameOver (execute a s)"
  proof -
    from a over tick endg have *: "allNotesFinished (execute a s) \<and>
        activeNotes (execute a s) = [] \<and> readyNotes (execute a s) = [] \<and> expiredNotes s = []"
      by auto
    then have "activeNotes s = []" using r reachable_expired by blast
    then have "expiredNotes (execute a s) = []" using a
      by (auto simp: GameTick_execute_def EndGame_execute_def expiredNotes_advanceTick)
    with * show ?thesis by simp
  qed
  from tick endg add press release only_if show ?thesis by blast
qed

theorem gameOver_after_action_witness:
  "reachable defaultState \<and> isGameOver (execute EndGame defaultState) \<and>
   allNotesFinished (execute EndGame defaultState) \<and>
   activeNotes (execute EndGame defaultState) = [] \<and>
   readyNotes (execute EndGame defaultState) = [] \<and>
   expiredNotes (execute EndGame defaultState) = []"
proof -
  have "isGameOver (execute EndGame defaultState)"
    by (simp add: defaultState_def tick_eval)
  then show ?thesis
    using gameOver_after_action [of defaultState "[]" 0 EndGame] reachable.initial by simp
qed

text \<open>
  C1 as stated fails two ticks after the note of the example song has reached row 349
  unplayed. The first tick drops it on the last row; the second leaves the song over and
  the three collections empty with \<open>isGameOver\<close> still false: it tested the
  \<open>expiredNotes\<close> it started from. (A third tick sets the flag.)
\<close>

theorem gameOver_counterexample:
  "reachable (run (fallActions @ [GameTick]) defaultState) \<and>
   allNotesFinished (execute GameTick (run (fallActions @ [GameTick]) defaultState)) \<and>
   activeNotes (execute GameTick (run (fallActions @ [GameTick]) defaultState)) = [] \<and>
   readyNotes (execute GameTick (run (fallActions @ [GameTick]) defaultState)) = [] \<and>
   expiredNotes (execute GameTick (run (fallActions @ [GameTick]) defaultState)) = [] \<and>
   \<not> isGameOver (execute GameTick (run (fallActions @ [GameTick]) defaultState)) \<and>
   isGameOver (execute GameTick (execute GameTick (run (fallActions @ [GameTick]) defaultState)))"
proof -
  have "reachable (run (fallActions @ [GameTick]) defaultState)"
    by (rule reachable_run [OF reachable.initial])
  moreover have "run (fallActions @ [GameTick]) defaultState =
     \<lparr> isGameOver = False, allNotesFinished = True, tickCount = 348,
       randomSeed = hash (hash 3847589), notesPlayed = 0, points = 0,
       activeNotes = [], expiredNotes = [shortNote\<lparr>yPos := 349\<rparr>], readyNotes = [] \<rparr>"
    unfolding run_append run_fallActions by (simp add: shortNote_def tick_eval)
  moreover have "execute GameTick
     \<lparr> isGameOver = False, allNotesFinished = True, tickCount = 348,
       randomSeed = hash (hash 3847589), notesPlayed = 0, points = 0,
       activeNotes = [], expiredNotes = [shortNote\<lparr>yPos := 349\<rparr>], readyNotes = [] \<rparr> =
     \<lparr> isGameOver = False, allNotesFinished = True, tickCount = 349,
       randomSeed = hash (hash 3847589), notesPlayed = 0, points = 0,
       activeNotes = [], expiredNotes = [], readyNotes = [] \<rparr>"
    by (simp add: tick_eval)
  moreover have "isGameOver (execute GameTick
     \<lparr> isGameOver = False, allNotesFinished = True, tickCount = 349,
       randomSeed = hash (hash 3847589), notesPlayed = 0, points = 0,
       activeNotes = [], expiredNotes = [], readyNotes = [] \<rparr>)"
    by (simp add: tick_eval)
  ultimately show ?thesis by simp
qed

section \<open>C2: a press that hits\<close>

text \<open>
  Five notes in the hit window at a score of 10, ten notes played: the multiplier is the
  double nearest to 1.2, and adding it five times in doubles gives 15.999999999999996,
  which \<^verbatim>\<open>~~\<close> writes back as 15; in exact arithmetic the sum is 16.
\<close>

lemma multiplier_ten:
  "fl (1 + fl (fl (1 / 5) * of_int (sint (toInt32 (fl (10 / 10)))))) =
     5404319552844595 / 4503599627370496"
proof -
  have "sint (toInt32 (fl (10 / 10))) = 1" by (simp add: fl_eval toInt32_def trunc_rat_def)
  moreover have "fl (1 + fl (fl (1 / 5) * 1)) = 5404319552844595 / 4503599627370496"
    by (simp add: fl_compute)
  ultimately show ?thesis by simp
qed

lemma five_additions:
  "((\<lambda>a. fl (a + 5404319552844595 / 4503599627370496)) ^^ 5) 10 =
     4503599627370495 / 281474976710656"
proof -
  have 1: "fl (10 + 5404319552844595 / 4503599627370496) = 3152519739159347 / 281474976710656"
    by (simp add: fl_compute)
  have 2: "fl (3152519739159347 / 281474976710656 + 5404319552844595 / 4503599627370496) =
      1745144855606067 / 140737488355328"
    by (simp add: fl_compute)
  have 3: "fl (1745144855606067 / 140737488355328 + 5404319552844595 / 4503599627370496) =
      3828059683264921 / 281474976710656"
    by (simp add: fl_compute)
  have 4: "fl (3828059683264921 / 281474976710656 + 5404319552844595 / 4503599627370496) =
      1041457413829427 / 70368744177664"
    by (simp add: fl_compute)
  have 5: "fl (1041457413829427 / 70368744177664 + 5404319552844595 / 4503599627370496) =
      4503599627370495 / 281474976710656"
    by (simp add: fl_compute)
  have n5: "(5::nat) = Suc (Suc (Suc (Suc (Suc 0))))" by simp
  show ?thesis unfolding n5 by (simp only: funpow.simps o_apply id_apply 1 2 3 4 5)
qed

lemma press_fiveInWindow:
  "map (inHitWindow 0) (activeNotes fiveInWindow) = [True, True, True, True, True] \<and>
   notesPlayed fiveInWindow = 10 \<and> points fiveInWindow = 10 \<and>
   points (execute (PressButton 0) fiveInWindow) = 15 \<and>
   toInt32 (10 + 5 * (1 + (1 / 5) * of_int (10 div 10))) = 16"
proof -
  have w: "map (inHitWindow 0) (activeNotes fiveInWindow) = [True, True, True, True, True]"
    by (simp add: fiveInWindow_def defaultState_def inHitWindow_def shortNote_def LAST_ROW_def
          THRESHOLD_def)
  have m: "length (filter (inHitWindow 0) (activeNotes fiveInWindow)) = 5"
    by (simp add: fiveInWindow_def defaultState_def inHitWindow_def shortNote_def LAST_ROW_def
          THRESHOLD_def)
  have n: "notesPlayed fiveInWindow = 10" "points fiveInWindow = 10"
    by (simp_all add: fiveInWindow_def defaultState_def)
  have sp: "(of_int (sint (10 :: 32 word)) :: rat) = 10" "(of_int 10 :: rat) = 10" by simp_all
  have "points (PressButton_execute 0 fiveInWindow) =
      toInt32 (((\<lambda>a. fl (a + 5404319552844595 / 4503599627370496)) ^^ 5) 10)"
    by (simp only: press_fields(3) m n sp multiplier_ten)
  then have "points (execute (PressButton 0) fiveInWindow) = 15"
    unfolding five_additions by (simp add: toInt32_def trunc_rat_def floor_rat_numeral_div)
  with w n show ?thesis by (simp add: toInt32_def trunc_rat_def)
qed

text \<open>
  C2, as the code has it. When at least one visible note of column \<open>c\<close> is in the hit
  window, a press of \<open>c\<close> makes every such note invisible and changes no other note,
  adds 1 to \<open>notesPlayed\<close>, and adds the multiplier to the points once for \<^emph>\<open>each\<close> of the
  notes hit. The multiplier is the double \<^verbatim>\<open>1 + 0.2 * ~~(n / 10)\<close>, \<open>n\<close> being \<open>notesPlayed\<close>
  before the press; every addition is a double addition, and the sum is written back
  through \<^verbatim>\<open>~~\<close>. For \<open>0 \<le> n < 2^31\<close> the inner \<^verbatim>\<open>~~(n / 10)\<close> is \<open>floor (n / 10)\<close>, and,
  when at most four notes are hit or \<open>floor (n / 10)\<close> is a multiple of five, the points
  written back are those of the exact sum, the old points plus the number of notes hit
  times \<open>1 + floor (n / 10) / 5\<close>, truncated. With exactly one note hit, points that are
  not negative and a result below \<open>2^31\<close>, the points grow by
  \<open>floor (1 + 0.2 * floor (n / 10))\<close>.
\<close>

theorem press_hit:
  assumes "\<exists>n \<in> set (activeNotes s). inHitWindow c n"
  shows
  "notesPlayed (execute (PressButton c) s) = notesPlayed s + 1 \<and>
   length (activeNotes (execute (PressButton c) s)) = length (activeNotes s) \<and>
   (\<forall>i < length (activeNotes s).
      (inHitWindow c (activeNotes s ! i) \<longrightarrow>
         activeNotes (execute (PressButton c) s) ! i = (activeNotes s ! i)\<lparr>visible := False\<rparr>) \<and>
      (\<not> inHitWindow c (activeNotes s ! i) \<longrightarrow>
         activeNotes (execute (PressButton c) s) ! i = activeNotes s ! i)) \<and>
   points (execute (PressButton c) s) =
     toInt32 (((\<lambda>a. fl (a + fl (1 + fl (fl (1 / 5) *
                 of_int (sint (toInt32 (fl (of_int (notesPlayed s) / 10))))))))
                ^^ length (filter (inHitWindow c) (activeNotes s))) (of_int (sint (points s)))) \<and>
   (0 \<le> notesPlayed s \<and> notesPlayed s < 2147483648 \<longrightarrow>
      sint (toInt32 (fl (of_int (notesPlayed s) / 10))) = notesPlayed s div 10) \<and>
   (0 \<le> notesPlayed s \<and> notesPlayed s < 2147483648 \<and>
    (length (filter (inHitWindow c) (activeNotes s)) \<le> 4 \<or>
     5 dvd notesPlayed s div 10 \<and>
     length (filter (inHitWindow c) (activeNotes s)) < 2 ^ 20) \<longrightarrow>
      points (execute (PressButton c) s) =
        toInt32 (of_int (sint (points s)) +
                 of_nat (length (filter (inHitWindow c) (activeNotes s))) *
                 (1 + (1 / 5) * of_int (notesPlayed s div 10)))) \<and>
   (length (filter (inHitWindow c) (activeNotes s)) = 1 \<and> 0 \<le> sint (points s) \<and>
    0 \<le> notesPlayed s \<and> notesPlayed s < 2147483648 \<and>
    sint (points s) + \<lfloor>1 + (1 / 5) * (of_int (notesPlayed s div 10) :: rat)\<rfloor> < 2147483648 \<longrightarrow>
      sint (points (execute (PressButton c) s)) =
        sint (points s) + \<lfloor>1 + (1 / 5) * (of_int (notesPlayed s div 10) :: rat)\<rfloor>)"
proof -
  have pts: "points (execute (PressButton c) s) =
     toInt32 (((\<lambda>a. fl (a + fl (1 + fl (fl (1 / 5) *
                 of_int (sint (toInt32 (fl (of_int (notesPlayed s) / 10))))))))
                ^^ length (filter (inHitWindow c) (activeNotes s))) (of_int (sint (points s))))"
    unfolding execute.simps by (rule press_fields(3))
  have exact: "points (execute (PressButton c) s) =
        toInt32 (of_int (sint (points s)) +
                 of_nat (length (filter (inHitWindow c) (activeNotes s))) *
                 (1 + (1 / 5) * of_int (notesPlayed s div 10)))"
    if n: "0 \<le> notesPlayed s" "notesPlayed s < 2147483648"
      and m: "length (filter (inHitWindow c) (activeNotes s)) \<le> 4 \<or>
        5 dvd notesPlayed s div 10 \<and> length (filter (inHitWindow c) (activeNotes s)) < 2 ^ 20"
    unfolding pts tilde_div10 [OF n] using n m by (rule score_added)
  have one: "sint (points (execute (PressButton c) s)) =
        sint (points s) + \<lfloor>1 + (1 / 5) * (of_int (notesPlayed s div 10) :: rat)\<rfloor>"
    if m: "length (filter (inHitWindow c) (activeNotes s)) = 1" and p: "0 \<le> sint (points s)"
      and n: "0 \<le> notesPlayed s" "notesPlayed s < 2147483648"
      and r: "sint (points s) + \<lfloor>1 + (1 / 5) * (of_int (notesPlayed s div 10) :: rat)\<rfloor> < 2147483648"
  proof -
    define x :: rat where "x = 1 + (1 / 5) * of_int (notesPlayed s div 10)"
    have x0: "0 \<le> x" using n by (simp add: x_def pos_imp_zdiv_nonneg_iff)
    from m have "length (filter (inHitWindow c) (activeNotes s)) \<le> 4 \<or>
        5 dvd notesPlayed s div 10 \<and> length (filter (inHitWindow c) (activeNotes s)) < 2 ^ 20"
      by simp
    from exact [OF n this]
    have "points (execute (PressButton c) s) = toInt32 (of_int (sint (points s)) + x)"
      unfolding m x_def by simp
    moreover have "trunc_rat (of_int (sint (points s)) + x) = sint (points s) + \<lfloor>x\<rfloor>"
      using p x0 by (rule trunc_rat_add_int)
    moreover have "0 \<le> sint (points s) + \<lfloor>x\<rfloor>" using p x0 by simp
    ultimately show ?thesis using r unfolding x_def [symmetric]
      by (simp add: sint_toInt32)
  qed
  have np: "notesPlayed (execute (PressButton c) s) = notesPlayed s + 1"
    using assms by (simp add: press_fields)
  have len: "length (activeNotes (execute (PressButton c) s)) = length (activeNotes s)"
    by (simp add: press_fields)
  have each: "\<forall>i < length (activeNotes s).
      (inHitWindow c (activeNotes s ! i) \<longrightarrow>
         activeNotes (execute (PressButton c) s) ! i = (activeNotes s ! i)\<lparr>visible := False\<rparr>) \<and>
      (\<not> inHitWindow c (activeNotes s ! i) \<longrightarrow>
         activeNotes (execute (PressButton c) s) ! i = activeNotes s ! i)"
    by (simp add: press_fields pressNote_def)
  have div10: "0 \<le> notesPlayed s \<and> notesPlayed s < 2147483648 \<longrightarrow>
      sint (toInt32 (fl (of_int (notesPlayed s) / 10))) = notesPlayed s div 10"
    using tilde_div10 by blast
  from np len each pts div10 exact one show ?thesis by blast
qed

theorem press_hit_witness:
  "map (inHitWindow 0) (activeNotes (run fallActions defaultState)) = [True] \<and>
   length (filter (inHitWindow 0) (activeNotes (run fallActions defaultState))) = 1 \<and>
   notesPlayed (run fallActions defaultState) = 0 \<and>
   points (run fallActions defaultState) = 0 \<and>
   notesPlayed (execute (PressButton 0) (run fallActions defaultState)) = 1 \<and>
   sint (points (execute (PressButton 0) (run fallActions defaultState))) = 1 \<and>
   activeNotes (execute (PressButton 0) (run fallActions defaultState)) ! 0 =
     shortNote\<lparr>yPos := 349, visible := False\<rparr>"
proof -
  have h: "\<exists>n \<in> set (activeNotes (run fallActions defaultState)). inHitWindow 0 n"
    by (simp add: run_fallActions inHitWindow_def shortNote_def LAST_ROW_def THRESHOLD_def)
  have w: "inHitWindow 0 (shortNote\<lparr>yPos := 349\<rparr>)"
    by (simp add: inHitWindow_def shortNote_def LAST_ROW_def THRESHOLD_def)
  from h w press_hit [OF h] show ?thesis
    by (simp add: run_fallActions toInt32_def trunc_rat_def fl_eval)
qed

text \<open>
  C2 as stated fails for a chord. Both notes of the chord are in the hit window of the
  green column; one press adds the multiplier twice, 2 points where the claim has
  \<open>floor (1 + 0.2 * floor (0 / 10)) = 1\<close>, and counts one note played.
\<close>

theorem press_hit_counterexample:
  "reachable (run chordActions defaultState) \<and>
   map (inHitWindow 0) (activeNotes (run chordActions defaultState)) = [True, True] \<and>
   notesPlayed (run chordActions defaultState) = 0 \<and>
   points (run chordActions defaultState) = 0 \<and>
   notesPlayed (execute (PressButton 0) (run chordActions defaultState)) = 1 \<and>
   points (execute (PressButton 0) (run chordActions defaultState)) = 2 \<and>
   \<lfloor>1 + (1 / 5) * (of_int \<lfloor>(0 :: rat) / 10\<rfloor> :: rat)\<rfloor> = 1"
proof -
  have "reachable (run chordActions defaultState)"
    by (rule reachable_run [OF reachable.initial])
  moreover have
    "map (inHitWindow 0) (activeNotes (run chordActions defaultState)) = [True, True]"
    by (simp add: run_chordActions inHitWindow_def shortNote_def longNote_def LAST_ROW_def
          THRESHOLD_def)
  ultimately show ?thesis unfolding press_chord by (simp add: run_chordActions)
qed

section \<open>C3: the expired notes\<close>

text \<open>
  C3, as the code has it. After a tick, a press, a release and the end of the song,
  \<open>expiredNotes\<close> is the \<open>activeNotes\<close> of the state before. After the arrival of a note
  group it is that list followed by the arriving notes, with their tails decided and not
  yet moved.
\<close>

theorem expired_after_action:
  "expiredNotes (execute GameTick s) = activeNotes s \<and>
   expiredNotes (execute EndGame s) = activeNotes s \<and>
   expiredNotes (execute (PressButton c) s) = activeNotes s \<and>
   expiredNotes (execute (ReleaseButton c) s) = activeNotes s \<and>
   expiredNotes (execute (AddNextNote g) s) = activeNotes s @ map attachTail g"
  by (simp add: GameTick_execute_def EndGame_execute_def PressButton_execute_def
        ReleaseButton_execute_def AddNextNote_execute_def Let_def expiredNotes_advanceTick)

text \<open>
  C3 as stated fails for the arrival of a group: the board was empty before, and
  \<open>expiredNotes\<close> holds the note that has just arrived.
\<close>

theorem expired_counterexample:
  "activeNotes defaultState = [] \<and>
   expiredNotes (execute (AddNextNote [shortNote]) defaultState) = [shortNote]"
  by (simp add: defaultState_def shortNote_def AddNextNote_execute_def Let_def
        expiredNotes_advanceTick attachTail_def fl_eval)

section \<open>C4: how far a note falls\<close>

lemma tick_kept:
  assumes "fst (calcPositionForGame m) = Some n"
  shows "yPos n = fl (yPos m + INCREMENT) \<and>
         (tail m = None \<longrightarrow> tail n = None) \<and>
         (\<forall>t. tail m = Some t \<longrightarrow> (\<exists>t'. tail n = Some t' \<and> start t' = fl (start t + INCREMENT))) \<and>
         (tail n = None \<longrightarrow> yPos n < LAST_ROW) \<and>
         (\<forall>t. tail n = Some t \<longrightarrow> start t < LAST_ROW \<or> (\<not> visible n \<and> yPos n = LAST_ROW))"
  using assms
  by (auto simp: calcPositionForGame_def updateNoteYPos_def adjustTail_def Let_def
        split: option.splits if_splits)

lemma tick_keeps:
  "(fst (calcPositionForGame m) \<noteq> None) =
     (case tail m of
        None \<Rightarrow> fl (yPos m + INCREMENT) < LAST_ROW
      | Some t \<Rightarrow> fl (start t + INCREMENT) < LAST_ROW \<or>
                 (\<not> visible m \<and> fl (yPos m + INCREMENT) = LAST_ROW))"
  by (auto simp: calcPositionForGame_def updateNoteYPos_def adjustTail_def Let_def
        split: option.splits if_splits)

lemma row_step:
  assumes "\<bar>i\<bar> < 2 ^ 53 - 1"
  shows "fl (of_int i + INCREMENT) = of_int i + INCREMENT"
proof -
  from assms have "\<bar>i + 1\<bar> < 2 ^ 53" by simp
  then have "fl (of_int (i + 1)) = of_int (i + 1)" by (rule fl_of_int)
  then show ?thesis by (simp add: INCREMENT_def)
qed

text \<open>
  C4, as the code has it. The board after a tick is the board before it, each note moved
  by \<open>INCREMENT\<close> (a double addition, exact on whole rows) and kept or dropped in place. A
  note without a tail is kept exactly when its new \<open>yPos\<close> is above the last row, so that
  on the board \<open>yPos < LAST_ROW\<close>. A note with a tail is kept exactly when the new start of
  its tail is above the last row or, resolved, when its new \<open>yPos\<close> is the last row,
  whatever its \<open>yPos\<close>; in particular it stays on the board while the start of its tail
  stays above the last row. The \<open>yPos\<close> of a note with a tail is not bounded by
  \<open>LAST_ROW + INCREMENT\<close>.
\<close>

theorem tick_positions:
  "activeNotes ((execute GameTick ^^ Suc k) s) =
     List.map_filter (\<lambda>m. fst (calcPositionForGame m)) (activeNotes ((execute GameTick ^^ k) s)) \<and>
   (\<forall>m. (fst (calcPositionForGame m) \<noteq> None) =
      (case tail m of
         None \<Rightarrow> fl (yPos m + INCREMENT) < LAST_ROW
       | Some t \<Rightarrow> fl (start t + INCREMENT) < LAST_ROW \<or>
                  (\<not> visible m \<and> fl (yPos m + INCREMENT) = LAST_ROW))) \<and>
   (\<forall>m n. fst (calcPositionForGame m) = Some n \<longrightarrow>
      yPos n = fl (yPos m + INCREMENT) \<and>
      (tail m = None \<longrightarrow> tail n = None) \<and>
      (\<forall>t. tail m = Some t \<longrightarrow> (\<exists>t'. tail n = Some t' \<and> start t' = fl (start t + INCREMENT)))) \<and>
   (\<forall>i. \<bar>i\<bar> < 2 ^ 53 - 1 \<longrightarrow> fl (of_int i + INCREMENT) = of_int i + INCREMENT) \<and>
   (\<forall>m \<in> set (activeNotes ((execute GameTick ^^ k) s)).
      \<forall>t. tail m = Some t \<and> fl (start t + INCREMENT) < LAST_ROW \<longrightarrow>
        (\<exists>n \<in> set (activeNotes ((execute GameTick ^^ Suc k) s)).
           fst (calcPositionForGame m) = Some n)) \<and>
   (\<forall>n \<in> set (activeNotes ((execute GameTick ^^ Suc k) s)).
      (tail n = None \<longrightarrow> yPos n < LAST_ROW) \<and>
      (\<forall>t. tail n = Some t \<longrightarrow> start t < LAST_ROW \<or> (\<not> visible n \<and> yPos n = LAST_ROW)))"
proof -
  have board: "activeNotes ((execute GameTick ^^ Suc k) s) =
     List.map_filter (\<lambda>m. fst (calcPositionForGame m)) (activeNotes ((execute GameTick ^^ k) s))"
    by (simp add: GameTick_execute_def activeNotes_advanceTick)
  have bound: "(tail n = None \<longrightarrow> yPos n < LAST_ROW) \<and>
      (\<forall>t. tail n = Some t \<longrightarrow> start t < LAST_ROW \<or> (\<not> visible n \<and> yPos n = LAST_ROW))"
    if "n \<in> set (activeNotes ((execute GameTick ^^ Suc k) s))" for n
  proof -
    from that obtain m where "fst (calcPositionForGame m) = Some n"
      unfolding board by (auto simp: set_map_filter)
    from tick_kept [OF this] show ?thesis by blast
  qed
  have moved: "yPos n = fl (yPos m + INCREMENT) \<and>
      (tail m = None \<longrightarrow> tail n = None) \<and>
      (\<forall>t. tail m = Some t \<longrightarrow> (\<exists>t'. tail n = Some t' \<and> start t' = fl (start t + INCREMENT)))"
    if "fst (calcPositionForGame m) = Some n" for m n
    using tick_kept [OF that] by blast
  have kept: "\<exists>n \<in> set (activeNotes ((execute GameTick ^^ Suc k) s)).
           fst (calcPositionForGame m) = Some n"
    if m: "m \<in> set (activeNotes ((execute GameTick ^^ k) s))"
      and t: "tail m = Some t \<and> fl (start t + INCREMENT) < LAST_ROW" for m t
  proof -
    have "fst (calcPositionForGame m) \<noteq> None" unfolding tick_keeps using t by simp
    then obtain n where n: "fst (calcPositionForGame m) = Some n" by blast
    with m have "n \<in> set (activeNotes ((execute GameTick ^^ Suc k) s))"
      unfolding board by (auto simp: set_map_filter)
    with n show ?thesis by blast
  qed
  have keeps: "\<forall>m \<in> set (activeNotes ((execute GameTick ^^ k) s)).
      \<forall>t. tail m = Some t \<and> fl (start t + INCREMENT) < LAST_ROW \<longrightarrow>
        (\<exists>n \<in> set (activeNotes ((execute GameTick ^^ Suc k) s)).
           fst (calcPositionForGame m) = Some n)"
    using kept by blast
  have bounds: "\<forall>n \<in> set (activeNotes ((execute GameTick ^^ Suc k) s)).
      (tail n = None \<longrightarrow> yPos n < LAST_ROW) \<and>
      (\<forall>t. tail n = Some t \<longrightarrow> start t < LAST_ROW \<or> (\<not> visible n \<and> yPos n = LAST_ROW))"
    using bound by blast
  have moves: "\<forall>m n. fst (calcPositionForGame m) = Some n \<longrightarrow>
      yPos n = fl (yPos m + INCREMENT) \<and>
      (tail m = None \<longrightarrow> tail n = None) \<and>
      (\<forall>t. tail m = Some t \<longrightarrow> (\<exists>t'. tail n = Some t' \<and> start t' = fl (start t + INCREMENT)))"
    using moved by blast
  have rows: "\<forall>i. \<bar>i\<bar> < 2 ^ 53 - 1 \<longrightarrow> fl (of_int i + INCREMENT) = of_int i + INCREMENT"
    using row_step by blast
  have keep_iff: "\<forall>m. (fst (calcPositionForGame m) \<noteq> None) =
      (case tail m of
         None \<Rightarrow> fl (yPos m + INCREMENT) < LAST_ROW
       | Some t \<Rightarrow> fl (start t + INCREMENT) < LAST_ROW \<or>
                  (\<not> visible m \<and> fl (yPos m + INCREMENT) = LAST_ROW))"
    using tick_keeps by blast
  from board keep_iff moves rows keeps bounds show ?thesis by (intro conjI)
qed

theorem tick_positions_witness:
  "activeNotes ((execute GameTick ^^ 1) (run missedActions defaultState)) =
     [missedNote\<lparr>yPos := 351, tail := Some \<lparr> start = 151, end' = 350, inactive = True \<rparr>\<rparr>] \<and>
   fl (151 + INCREMENT) < LAST_ROW \<and>
   fst (calcPositionForGame
     (missedNote\<lparr>yPos := 351, tail := Some \<lparr> start = 151, end' = 350, inactive = True \<rparr>\<rparr>)) =
     Some (missedNote\<lparr>yPos := 352, tail := Some \<lparr> start = 152, end' = 350, inactive = True \<rparr>\<rparr>) \<and>
   activeNotes ((execute GameTick ^^ Suc 1) (run missedActions defaultState)) =
     [missedNote\<lparr>yPos := 352, tail := Some \<lparr> start = 152, end' = 350, inactive = True \<rparr>\<rparr>] \<and>
   fl (of_int 351 + INCREMENT) = 352"
proof -
  have a: "activeNotes ((execute GameTick ^^ 1) (run missedActions defaultState)) =
     [missedNote\<lparr>yPos := 351, tail := Some \<lparr> start = 151, end' = 350, inactive = True \<rparr>\<rparr>]"
    by (simp add: run_missedActions missedNote_def longNote_def tick_eval)
  have b: "fst (calcPositionForGame
     (missedNote\<lparr>yPos := 351, tail := Some \<lparr> start = 151, end' = 350, inactive = True \<rparr>\<rparr>)) =
     Some (missedNote\<lparr>yPos := 352, tail := Some \<lparr> start = 152, end' = 350, inactive = True \<rparr>\<rparr>)"
    by (simp add: missedNote_def longNote_def tick_eval)
  have c: "fl (151 + INCREMENT) < LAST_ROW" by (simp add: INCREMENT_def LAST_ROW_def fl_eval)
  from tick_positions [of 1 "run missedActions defaultState"]
  have d: "activeNotes ((execute GameTick ^^ Suc 1) (run missedActions defaultState)) =
     List.map_filter (\<lambda>m. fst (calcPositionForGame m))
       (activeNotes ((execute GameTick ^^ 1) (run missedActions defaultState)))"
    and e: "\<bar>351 :: int\<bar> < 2 ^ 53 - 1 \<longrightarrow> fl (of_int 351 + INCREMENT) = of_int 351 + INCREMENT"
    by blast+
  from e have f: "fl (of_int 351 + INCREMENT) = 352" by (simp add: INCREMENT_def)
  from d have "activeNotes ((execute GameTick ^^ Suc 1) (run missedActions defaultState)) =
     [missedNote\<lparr>yPos := 352, tail := Some \<lparr> start = 152, end' = 350, inactive = True \<rparr>\<rparr>]"
    unfolding a by (simp add: b)
  with a b c f show ?thesis by simp
qed

text \<open>
  C4 as stated fails for a note with a tail: two ticks after the long note has reached the
  last row it is still on the board, at row 352.
\<close>

theorem tick_positions_counterexample:
  "reachable (run missedActions defaultState) \<and>
   map yPos (activeNotes (execute GameTick (execute GameTick (run missedActions defaultState))))
     = [352] \<and>
   LAST_ROW + INCREMENT = 351"
proof -
  have "reachable (run missedActions defaultState)"
    by (rule reachable_run [OF reachable.initial])
  moreover have
    "map yPos (activeNotes (execute GameTick (execute GameTick (run missedActions defaultState))))
       = [352]"
    by (simp add: run_missedActions longNote_def tick_eval)
  ultimately show ?thesis by (simp add: LAST_ROW_def INCREMENT_def)
qed

section \<open>C5: an inactive tail stays inactive\<close>

text \<open>
  C5. Take a note \<open>n\<close> on the board of a reachable state and follow it through any list
  of actions, as long as it stays on the board (\<open>noteTrace\<close>; by \<open>activeNotes_execute\<close>
  the board after an action is made of exactly these successors and the arriving notes).
  What it has become, \<open>n'\<close>, is on the board of the state reached; it has a tail exactly
  when \<open>n\<close> has one; and when the tail of \<open>n\<close> is inactive, so is the tail of \<open>n'\<close>.
\<close>

theorem tail_inactive_permanent:
  assumes "reachable s" and "n \<in> set (activeNotes s)" and "noteTrace as n = Some n'"
  shows "n' \<in> set (activeNotes (run as s)) \<and>
         (tail n' = None \<longleftrightarrow> tail n = None) \<and>
         (\<forall>t. tail n = Some t \<and> inactive t \<longrightarrow> (\<exists>t'. tail n' = Some t' \<and> inactive t'))"
  using assms
proof (induction as arbitrary: s n)
  case Nil
  then show ?case by simp
next
  case (Cons a as)
  from Cons.prems(3) obtain m where m: "noteStep a n = Some m" and tr: "noteTrace as m = Some n'"
    by (auto split: option.splits)
  have r: "reachable (execute a s)" using Cons.prems(1) by (rule reachable.step)
  have mem: "m \<in> set (activeNotes (execute a s))" using Cons.prems(2) m by (rule noteStep_active)
  from Cons.IH [OF r mem tr]
  have ih: "n' \<in> set (activeNotes (run as (execute a s)))"
    "tail n' = None \<longleftrightarrow> tail m = None"
    "\<forall>t. tail m = Some t \<and> inactive t \<longrightarrow> (\<exists>t'. tail n' = Some t' \<and> inactive t')"
    by blast+
  have pres: "tail m = None \<longleftrightarrow> tail n = None" using m by (rule noteStep_tail_presence)
  have "\<exists>t'. tail n' = Some t' \<and> inactive t'" if t: "tail n = Some t" "inactive t" for t
  proof -
    from reachable_settled [OF Cons.prems(1)] Cons.prems(2) t have "\<not> visible n" by blast
    with m t obtain t1 where "tail m = Some t1" "inactive t1"
      using noteStep_inactive by blast
    with ih(3) show ?thesis by blast
  qed
  with ih(1,2) pres show ?case by auto
qed

theorem tail_inactive_permanent_witness:
  "reachable (run missedActions defaultState) \<and>
   missedNote \<in> set (activeNotes (run missedActions defaultState)) \<and>
   tail missedNote = Some \<lparr> start = 150, end' = 350, inactive = True \<rparr> \<and>
   noteTrace [GameTick, PressButton 0, ReleaseButton 0] missedNote =
     Some (missedNote\<lparr>yPos := 351,
                      tail := Some \<lparr> start = 151, end' = 350, inactive = True \<rparr>\<rparr>) \<and>
   missedNote\<lparr>yPos := 351, tail := Some \<lparr> start = 151, end' = 350, inactive = True \<rparr>\<rparr>
     \<in> set (activeNotes (run [GameTick, PressButton 0, ReleaseButton 0]
                            (run missedActions defaultState)))"
proof -
  have r: "reachable (run missedActions defaultState)"
    by (rule reachable_run [OF reachable.initial])
  have m: "missedNote \<in> set (activeNotes (run missedActions defaultState))"
    by (simp add: run_missedActions missedNote_def)
  have t: "noteTrace [GameTick, PressButton 0, ReleaseButton 0] missedNote =
     Some (missedNote\<lparr>yPos := 351,
                      tail := Some \<lparr> start = 151, end' = 350, inactive = True \<rparr>\<rparr>)"
    by (simp add: missedNote_def longNote_def tick_eval pressNote_def releaseNote_def
          inHitWindow_def heldTail_def)
  have "tail missedNote = Some \<lparr> start = 150, end' = 350, inactive = True \<rparr>"
    by (simp add: missedNote_def)
  with r m t tail_inactive_permanent [OF r m t] show ?thesis by simp
qed

section \<open>C6: releasing a column\<close>

text \<open>
  C6, as the code has it. A release of column \<open>c\<close> leaves \<open>notesPlayed\<close> as it was; it
  takes the multiplier from the points once for every active note of the column that is
  resolved and has a tail that is not inactive, and writes the result back through
  \<^verbatim>\<open>~~\<close>, truncated toward zero; it marks the tail of each such note inactive and changes
  no other note. When there is no such note, points and \<open>activeNotes\<close> are unchanged. The
  multiplier is the double \<^verbatim>\<open>1 + 0.2 * Math.floor(n / 10)\<close>, \<open>n\<close> being \<open>notesPlayed\<close>, and
  every subtraction is a double subtraction. For \<open>0 \<le> n < 2^31\<close> the inner
  \<^verbatim>\<open>Math.floor(n / 10)\<close> is \<open>floor (n / 10)\<close>, and, when at most four tails are released or
  \<open>floor (n / 10)\<close> is a multiple of five, the points written back are those of the exact
  difference, the old points less the number of tails released times
  \<open>1 + 0.2 * floor (n / 10)\<close>, truncated.
\<close>

theorem release_penalty:
  "notesPlayed (execute (ReleaseButton c) s) = notesPlayed s \<and>
   points (execute (ReleaseButton c) s) =
     toInt32 (((\<lambda>a. fl (a - fl (1 + fl (fl (1 / 5) *
                 of_int \<lfloor>fl (of_int (notesPlayed s) / 10)\<rfloor>))))
                ^^ length (filter (heldTail c) (activeNotes s))) (of_int (sint (points s)))) \<and>
   (0 \<le> notesPlayed s \<and> notesPlayed s < 2147483648 \<longrightarrow>
      \<lfloor>fl (of_int (notesPlayed s) / 10)\<rfloor> = \<lfloor>(of_int (notesPlayed s) :: rat) / 10\<rfloor>) \<and>
   (0 \<le> notesPlayed s \<and> notesPlayed s < 2147483648 \<and>
    (length (filter (heldTail c) (activeNotes s)) \<le> 4 \<or>
     5 dvd notesPlayed s div 10 \<and> length (filter (heldTail c) (activeNotes s)) < 2 ^ 20) \<longrightarrow>
      points (execute (ReleaseButton c) s) =
        toInt32 (of_int (sint (points s)) -
                 of_nat (length (filter (heldTail c) (activeNotes s))) *
                 (1 + (1 / 5) * of_int \<lfloor>(of_int (notesPlayed s) :: rat) / 10\<rfloor>))) \<and>
   length (activeNotes (execute (ReleaseButton c) s)) = length (activeNotes s) \<and>
   (\<forall>i < length (activeNotes s).
      (heldTail c (activeNotes s ! i) \<longrightarrow>
         (\<exists>t. tail (activeNotes s ! i) = Some t \<and> column (activeNotes s ! i) = c \<and>
              \<not> visible (activeNotes s ! i) \<and> \<not> inactive t \<and>
              activeNotes (execute (ReleaseButton c) s) ! i =
                (activeNotes s ! i)\<lparr>tail := Some (t\<lparr>inactive := True\<rparr>)\<rparr>)) \<and>
      (\<not> heldTail c (activeNotes s ! i) \<longrightarrow>
         activeNotes (execute (ReleaseButton c) s) ! i = activeNotes s ! i)) \<and>
   ((\<forall>n \<in> set (activeNotes s). \<not> heldTail c n) \<longrightarrow>
      points (execute (ReleaseButton c) s) = points s \<and>
      activeNotes (execute (ReleaseButton c) s) = activeNotes s)"
proof -
  have pts: "points (execute (ReleaseButton c) s) =
     toInt32 (((\<lambda>a. fl (a - fl (1 + fl (fl (1 / 5) *
                 of_int \<lfloor>fl (of_int (notesPlayed s) / 10)\<rfloor>))))
                ^^ length (filter (heldTail c) (activeNotes s))) (of_int (sint (points s))))"
    unfolding execute.simps by (rule release_points)
  have fl10: "\<lfloor>fl (of_int (notesPlayed s) / 10)\<rfloor> = \<lfloor>(of_int (notesPlayed s) :: rat) / 10\<rfloor>"
    if n: "0 \<le> notesPlayed s" "notesPlayed s < 2147483648"
  proof -
    have "\<lfloor>(of_int (notesPlayed s) :: rat) / of_int 10\<rfloor> = notesPlayed s div 10"
      by (rule floor_divide_of_int_eq)
    with floor_div10 [OF n] show ?thesis by simp
  qed
  have exact: "points (execute (ReleaseButton c) s) =
        toInt32 (of_int (sint (points s)) -
                 of_nat (length (filter (heldTail c) (activeNotes s))) *
                 (1 + (1 / 5) * of_int \<lfloor>(of_int (notesPlayed s) :: rat) / 10\<rfloor>))"
    if n: "0 \<le> notesPlayed s" "notesPlayed s < 2147483648"
      and m: "length (filter (heldTail c) (activeNotes s)) \<le> 4 \<or>
        5 dvd notesPlayed s div 10 \<and> length (filter (heldTail c) (activeNotes s)) < 2 ^ 20"
  proof -
    have q: "\<lfloor>(of_int (notesPlayed s) :: rat) / 10\<rfloor> = notesPlayed s div 10"
      using floor_divide_of_int_eq [of "notesPlayed s" 10, where ?'a = rat] by simp
    show ?thesis unfolding pts floor_div10 [OF n] q using n m by (rule score_taken)
  qed
  have act: "activeNotes (execute (ReleaseButton c) s) = map (releaseNote c) (activeNotes s)"
    by (simp add: ReleaseButton_execute_def Let_def)
  have np: "notesPlayed (execute (ReleaseButton c) s) = notesPlayed s"
    by (simp add: ReleaseButton_execute_def Let_def)
  have each: "(heldTail c n \<longrightarrow>
         (\<exists>t. tail n = Some t \<and> column n = c \<and> \<not> visible n \<and> \<not> inactive t \<and>
              releaseNote c n = n\<lparr>tail := Some (t\<lparr>inactive := True\<rparr>)\<rparr>)) \<and>
      (\<not> heldTail c n \<longrightarrow> releaseNote c n = n)" for n
    by (auto simp: heldTail_def releaseNote_def split: option.splits)
  have noop: "points (execute (ReleaseButton c) s) = points s \<and>
      activeNotes (execute (ReleaseButton c) s) = activeNotes s"
    if "\<forall>n \<in> set (activeNotes s). \<not> heldTail c n"
  proof -
    from that have "filter (heldTail c) (activeNotes s) = []" by (simp add: filter_empty_conv)
    with pts have "points (execute (ReleaseButton c) s) = toInt32 (of_int (sint (points s)))"
      by simp
    then have "points (execute (ReleaseButton c) s) = points s"
      by (simp only: toInt32_points)
    moreover from that act have "activeNotes (execute (ReleaseButton c) s) = activeNotes s"
      by (simp add: map_releaseNote_none)
    ultimately show ?thesis by simp
  qed
  have all: "\<forall>i < length (activeNotes s).
      (heldTail c (activeNotes s ! i) \<longrightarrow>
         (\<exists>t. tail (activeNotes s ! i) = Some t \<and> column (activeNotes s ! i) = c \<and>
              \<not> visible (activeNotes s ! i) \<and> \<not> inactive t \<and>
              activeNotes (execute (ReleaseButton c) s) ! i =
                (activeNotes s ! i)\<lparr>tail := Some (t\<lparr>inactive := True\<rparr>)\<rparr>)) \<and>
      (\<not> heldTail c (activeNotes s ! i) \<longrightarrow>
         activeNotes (execute (ReleaseButton c) s) ! i = activeNotes s ! i)"
    unfolding act using each by simp
  have len: "length (activeNotes (execute (ReleaseButton c) s)) = length (activeNotes s)"
    unfolding act by simp
  from np pts fl10 exact len all noop show ?thesis by blast
qed

theorem release_penalty_witness:
  "map (heldTail 0) (activeNotes (execute (PressButton 0) (run chordActions defaultState)))
     = [False, True] \<and>
   points (execute (PressButton 0) (run chordActions defaultState)) = 2 \<and>
   notesPlayed (execute (PressButton 0) (run chordActions defaultState)) = 1 \<and>
   points (execute (ReleaseButton 0) (execute (PressButton 0) (run chordActions defaultState)))
     = 1 \<and>
   notesPlayed (execute (ReleaseButton 0) (execute (PressButton 0) (run chordActions defaultState)))
     = 1 \<and>
   activeNotes (execute (ReleaseButton 0) (execute (PressButton 0) (run chordActions defaultState)))
     = [shortNote\<lparr>yPos := 310, visible := False\<rparr>,
        longNote\<lparr>yPos := 310, visible := False,
                 tail := Some \<lparr> start = 110, end' = 310, inactive = True \<rparr>\<rparr>] \<and>
   map (heldTail 1) (activeNotes (execute (PressButton 0) (run chordActions defaultState)))
     = [False, False] \<and>
   points (execute (ReleaseButton 1) (execute (PressButton 0) (run chordActions defaultState)))
     = points (execute (PressButton 0) (run chordActions defaultState)) \<and>
   activeNotes (execute (ReleaseButton 1) (execute (PressButton 0) (run chordActions defaultState)))
     = activeNotes (execute (PressButton 0) (run chordActions defaultState))"
  using release_penalty [of 0 "execute (PressButton 0) (run chordActions defaultState)"]
    release_penalty [of 1 "execute (PressButton 0) (run chordActions defaultState)"]
  unfolding press_chord
  by (simp add: heldTail_def shortNote_def longNote_def toInt32_def trunc_rat_def
        ReleaseButton_execute_def releaseNote_def releasePenalty_def Let_def fl_eval fl_tenth_one)

text \<open>
  C6 as stated fails when five tails are released at once. Ten notes have been played,
  so that the multiplier is the double nearest to 1.2, and the score is 7: five double
  subtractions leave 0.9999999999999993, which \<^verbatim>\<open>~~\<close> writes back as 0, where
  \<open>7 - 5 * (1 + 0.2 * floor (10 / 10))\<close> is 1.
\<close>

theorem release_penalty_counterexample:
  "map (heldTail 0) (activeNotes fiveHeld) = [True, True, True, True, True] \<and>
   notesPlayed fiveHeld = 10 \<and> points fiveHeld = 7 \<and>
   points (execute (ReleaseButton 0) fiveHeld) = 0 \<and>
   toInt32 (7 - 5 * (1 + (1 / 5) * of_int \<lfloor>(10 :: rat) / 10\<rfloor>)) = 1"
proof -
  have w: "map (heldTail 0) (activeNotes fiveHeld) = [True, True, True, True, True]"
    by (simp add: fiveHeld_def defaultState_def heldTail_def heldNote_def longNote_def)
  have n: "notesPlayed fiveHeld = 10" "points fiveHeld = 7"
    by (simp_all add: fiveHeld_def defaultState_def)
  have d: "fl (1 + fl (fl (1 / 5) * of_int \<lfloor>fl (10 / 10)\<rfloor>)) =
      5404319552844595 / 4503599627370496"
  proof -
    have "\<lfloor>fl (10 / 10)\<rfloor> = 1" by (simp add: fl_eval)
    moreover have "fl (1 + fl (fl (1 / 5) * 1)) = 5404319552844595 / 4503599627370496"
      by (simp add: fl_compute)
    ultimately show ?thesis by simp
  qed
  have 1: "fl (7 - 5404319552844595 / 4503599627370496) = 6530219459687219 / 1125899906842624"
    by (simp add: fl_compute)
  have 2: "fl (6530219459687219 / 1125899906842624 - 5404319552844595 / 4503599627370496) =
      2589569785738035 / 562949953421312"
    by (simp add: fl_compute)
  have 3: "fl (2589569785738035 / 562949953421312 - 5404319552844595 / 4503599627370496) =
      3828059683264921 / 1125899906842624"
    by (simp add: fl_compute)
  have 4: "fl (3828059683264921 / 1125899906842624 - 5404319552844595 / 4503599627370496) =
      619244948763443 / 281474976710656"
    by (simp add: fl_compute)
  have 5: "fl (619244948763443 / 281474976710656 - 5404319552844595 / 4503599627370496) =
      4503599627370493 / 4503599627370496"
    by (simp add: fl_compute)
  have n5: "(5::nat) = Suc (Suc (Suc (Suc (Suc 0))))" by simp
  have five: "((\<lambda>a. fl (a - 5404319552844595 / 4503599627370496)) ^^ 5) 7 =
      4503599627370493 / 4503599627370496"
    unfolding n5 by (simp only: funpow.simps o_apply id_apply 1 2 3 4 5)
  have m: "length (filter (heldTail 0) (activeNotes fiveHeld)) = 5"
    by (simp add: fiveHeld_def defaultState_def heldTail_def heldNote_def longNote_def)
  have sp: "(of_int (sint (7 :: 32 word)) :: rat) = 7" "(of_int 10 :: rat) = 10" by simp_all
  have "points (ReleaseButton_execute 0 fiveHeld) =
      toInt32 (((\<lambda>a. fl (a - 5404319552844595 / 4503599627370496)) ^^ 5) 7)"
    by (simp only: release_points m n sp d)
  then have "points (execute (ReleaseButton 0) fiveHeld) = 0"
    unfolding five by (simp add: toInt32_def trunc_rat_def floor_rat_numeral_div)
  with w n show ?thesis by (simp add: toInt32_def trunc_rat_def)
qed

section \<open>C7: a press that misses\<close>

text \<open>
  C7, as the code has it. Every press replaces the stored seed by its hash, once. A press
  of column \<open>c\<close> with no visible note of the column in the hit window and no resolved
  note with a tail in the column, whether that tail is inactive or not, leaves points,
  \<open>notesPlayed\<close> and the board as they were and appends one note to \<open>readyNotes\<close>. Its
  instrument, volume, pitch and end time are all cut from the same number,
  \<open>scale\<close> of the seed before the press: the index \<^verbatim>\<open>~~(u * 6)\<close> into the six samples,
  \<^verbatim>\<open>~~(u * 90)\<close>, \<^verbatim>\<open>~~(u * 70)\<close> and \<^verbatim>\<open>~~(u * 500)\<close>. A press that hits, or that finds a
  resolved note with a tail in the column, appends nothing.
\<close>

theorem press_miss:
  "randomSeed (execute (PressButton c) s) = hash (randomSeed s) \<and>
   ((\<forall>n \<in> set (activeNotes s). \<not> inHitWindow c n \<and> \<not> resolvedWithTail c n) \<longrightarrow>
      points (execute (PressButton c) s) = points s \<and>
      notesPlayed (execute (PressButton c) s) = notesPlayed s \<and>
      activeNotes (execute (PressButton c) s) = activeNotes s \<and>
      readyNotes (execute (PressButton c) s) = readyNotes s @ [incorrectNote s]) \<and>
   ((\<forall>n \<in> set (activeNotes s). \<not> inHitWindow c n) \<and>
    (\<exists>n \<in> set (activeNotes s). resolvedWithTail c n) \<longrightarrow>
      points (execute (PressButton c) s) = points s \<and>
      readyNotes (execute (PressButton c) s) = readyNotes s) \<and>
   ((\<exists>n \<in> set (activeNotes s). inHitWindow c n) \<longrightarrow>
      readyNotes (execute (PressButton c) s) = readyNotes s) \<and>
   instrument (incorrectNote s) =
     js_index samples (sint (toInt32 (scale (of_int (randomSeed s)) * 6))) \<and>
   volume (incorrectNote s) = sint (toInt32 (scale (of_int (randomSeed s)) * 90)) \<and>
   pitch (incorrectNote s) = sint (toInt32 (scale (of_int (randomSeed s)) * 70)) \<and>
   startTime (incorrectNote s) = 0 \<and>
   endTime (incorrectNote s) = of_int (sint (toInt32 (scale (of_int (randomSeed s)) * 500))) \<and>
   tail (incorrectNote s) = None"
proof -
  have pts: "points (execute (PressButton c) s) = points s"
    if "\<forall>n \<in> set (activeNotes s). \<not> inHitWindow c n"
  proof -
    from that have "filter (inHitWindow c) (activeNotes s) = []" by (simp add: filter_empty_conv)
    then have "points (execute (PressButton c) s) = toInt32 (of_int (sint (points s)))"
      by (simp add: press_fields)
    then show ?thesis by (simp only: toInt32_points)
  qed
  have miss: "points (execute (PressButton c) s) = points s \<and>
      notesPlayed (execute (PressButton c) s) = notesPlayed s \<and>
      activeNotes (execute (PressButton c) s) = activeNotes s \<and>
      readyNotes (execute (PressButton c) s) = readyNotes s @ [incorrectNote s]"
    if h: "\<forall>n \<in> set (activeNotes s). \<not> inHitWindow c n \<and> \<not> resolvedWithTail c n"
  proof -
    from h have w: "\<forall>n \<in> set (activeNotes s). \<not> inHitWindow c n" by blast
    then have m: "map (pressNote c) (activeNotes s) = activeNotes s" by (rule map_pressNote_miss)
    from h have f: "filter (resolvedWithTail c) (activeNotes s) = []"
      by (simp add: filter_empty_conv)
    from w m f pts [OF w] show ?thesis by (simp add: press_fields)
  qed
  have hold: "points (execute (PressButton c) s) = points s \<and>
      readyNotes (execute (PressButton c) s) = readyNotes s"
    if w: "\<forall>n \<in> set (activeNotes s). \<not> inHitWindow c n"
      and e: "\<exists>n \<in> set (activeNotes s). resolvedWithTail c n"
  proof -
    from w have m: "map (pressNote c) (activeNotes s) = activeNotes s" by (rule map_pressNote_miss)
    from e have f: "filter (resolvedWithTail c) (activeNotes s) \<noteq> []"
      by (simp add: filter_empty_conv)
    from w m f pts [OF w] show ?thesis by (simp add: press_fields)
  qed
  have hit: "readyNotes (execute (PressButton c) s) = readyNotes s"
    if "\<exists>n \<in> set (activeNotes s). inHitWindow c n"
    using that by (auto simp: press_fields)
  have seed: "randomSeed (execute (PressButton c) s) = hash (randomSeed s)"
    by (simp add: press_fields)
  have filler: "instrument (incorrectNote s) =
     js_index samples (sint (toInt32 (scale (of_int (randomSeed s)) * 6))) \<and>
   volume (incorrectNote s) = sint (toInt32 (scale (of_int (randomSeed s)) * 90)) \<and>
   pitch (incorrectNote s) = sint (toInt32 (scale (of_int (randomSeed s)) * 70)) \<and>
   startTime (incorrectNote s) = 0 \<and>
   endTime (incorrectNote s) = of_int (sint (toInt32 (scale (of_int (randomSeed s)) * 500))) \<and>
   tail (incorrectNote s) = None"
    by (simp add: incorrectNote_def samples_def)
  from seed miss hold hit filler show ?thesis by blast
qed

theorem press_miss_witness:
  "activeNotes defaultState = [] \<and>
   randomSeed (execute (PressButton 0) defaultState) = hash (randomSeed defaultState) \<and>
   points (execute (PressButton 0) defaultState) = points defaultState \<and>
   readyNotes (execute (PressButton 0) defaultState) = [incorrectNote defaultState] \<and>
   volume (incorrectNote defaultState) = 66 \<and>
   map (inHitWindow 0) (activeNotes (run missedActions defaultState)) = [False] \<and>
   map (resolvedWithTail 0) (activeNotes (run missedActions defaultState)) = [True] \<and>
   readyNotes (execute (PressButton 0) (run missedActions defaultState)) =
     readyNotes (run missedActions defaultState) \<and>
   map (inHitWindow 0) (activeNotes (run chordActions defaultState)) = [True, True] \<and>
   readyNotes (execute (PressButton 0) (run chordActions defaultState)) =
     readyNotes (run chordActions defaultState)"
proof -
  have a: "activeNotes defaultState = [] \<and> readyNotes defaultState = []"
    by (simp add: defaultState_def)
  have b: "map (inHitWindow 0) (activeNotes (run missedActions defaultState)) = [False] \<and>
    map (resolvedWithTail 0) (activeNotes (run missedActions defaultState)) = [True]"
    by (simp add: run_missedActions inHitWindow_def resolvedWithTail_def longNote_def
          LAST_ROW_def THRESHOLD_def)
  have c: "map (inHitWindow 0) (activeNotes (run chordActions defaultState)) = [True, True]"
    by (simp add: run_chordActions inHitWindow_def shortNote_def longNote_def LAST_ROW_def
          THRESHOLD_def)
  have v: "volume (incorrectNote defaultState) = 66"
    by (simp add: incorrectNote_def defaultState_def defaultSeed filler_eval)
  have b': "(\<forall>n \<in> set (activeNotes (run missedActions defaultState)). \<not> inHitWindow 0 n) \<and>
    (\<exists>n \<in> set (activeNotes (run missedActions defaultState)). resolvedWithTail 0 n)"
    by (simp add: run_missedActions inHitWindow_def resolvedWithTail_def longNote_def
          LAST_ROW_def THRESHOLD_def)
  have c': "\<exists>n \<in> set (activeNotes (run chordActions defaultState)). inHitWindow 0 n"
    by (simp add: run_chordActions inHitWindow_def shortNote_def longNote_def LAST_ROW_def
          THRESHOLD_def)
  from a b c v b' c'
    press_miss [of 0 defaultState]
    press_miss [of 0 "run missedActions defaultState"]
    press_miss [of 0 "run chordActions defaultState"]
  show ?thesis by simp
qed

text \<open>
  C7 as stated fails at the first press of a game. The seed is 1593167226 and the note
  has instrument 4, volume 66, pitch 51 and end time 370, all four from the one draw
  \<open>scale 1593167226\<close>. Draws that advance the seed would take the volume from the next
  seed, 966777088, which gives 40, the pitch from 321754368, which gives 10, and the end
  time from 1271832896, which gives 296. It also fails on the board where the long note
  has been missed: that note is resolved and its tail is inactive, so no tail is held in
  the green column and no note is in its hit window, yet a press of it appends nothing.
\<close>

theorem press_miss_counterexample:
  "randomSeed defaultState = 1593167226 \<and>
   readyNotes (execute (PressButton 0) defaultState) =
     [\<lparr> id' = 0, visible = False, yPos = 0, column = 0, instrument = Some ''trumpet'',
        volume = 66, pitch = 51, startTime = 0, endTime = 370, tail = None \<rparr>] \<and>
   js_index samples (sint (toInt32 (scale 1593167226 * 6))) = Some ''trumpet'' \<and>
   sint (toInt32 (scale 1593167226 * 90)) = 66 \<and>
   sint (toInt32 (scale 1593167226 * 70)) = 51 \<and>
   sint (toInt32 (scale 1593167226 * 500)) = 370 \<and>
   hash 1593167226 = 966777088 \<and> sint (toInt32 (scale 966777088 * 90)) = 40 \<and>
   hash 966777088 = 321754368 \<and> sint (toInt32 (scale 321754368 * 70)) = 10 \<and>
   hash 321754368 = 1271832896 \<and> sint (toInt32 (scale 1271832896 * 500)) = 296 \<and>
   reachable (run missedActions defaultState) \<and>
   activeNotes (run missedActions defaultState) = [missedNote] \<and>
   inHitWindow 0 missedNote = False \<and>
   heldTail 0 missedNote = False \<and>
   readyNotes (run missedActions defaultState) = [] \<and>
   readyNotes (execute (PressButton 0) (run missedActions defaultState)) = []"
proof -
  have "reachable (run missedActions defaultState)"
    by (rule reachable_run [OF reachable.initial])
  moreover have "randomSeed defaultState = 1593167226"
    by (simp add: defaultState_def defaultSeed)
  moreover have "js_index samples (sint (toInt32 (scale 1593167226 * 6))) = Some ''trumpet''"
    by (simp add: filler_eval samples_def js_index_def)
  moreover have "activeNotes (run missedActions defaultState) = [missedNote] \<and>
     inHitWindow 0 missedNote = False \<and> heldTail 0 missedNote = False \<and>
     readyNotes (run missedActions defaultState) = []"
    by (simp add: run_missedActions missedNote_def inHitWindow_def heldTail_def longNote_def
          LAST_ROW_def)
  moreover note press_default press_missed
  ultimately show ?thesis
    by (simp add: filler_eval hash_chain)
qed

section \<open>C8: groups and delays\<close>




section \<open>C9: hash and scale\<close>




section \<open>C10: which notes get a tail\<close>




end
